theory Spec2Isabelle
  imports Main "HOL-Library.Word" "HOL-Library.AList"
begin

unbundle bit_operations_syntax

section \<open>Python values used by vertex.ptcp\<close>

text \<open>
  The module is Python 2: a \<^verbatim>\<open>str\<close> is a string of bytes, an \<^verbatim>\<open>int\<close> is unbounded.
  A datagram address is a \<^verbatim>\<open>(host, port)\<close> tuple.  Every \<^verbatim>\<open>raise\<close>, failed
  \<^verbatim>\<open>assert\<close>, failed attribute lookup and \<^verbatim>\<open>struct.error\<close> of the source is a value
  of \<open>error\<close>; a function that may raise returns \<open>error + 'a\<close>.
\<close>

type_synonym byte = "8 word"
type_synonym bytes = "byte list"
type_synonym addr = "string \<times> int"

datatype error =
    StructError
  | AssertionError
  | AttributeError
  | UnboundLocalError
  | KeyError
  | RuntimeError
  | NoTransition
  | BadPacketError
  | ChecksumMismatchError int int
  | TruncatedDataError
  | GarbageDataError
  | NotAnInput
  | NestedTooDeep

text \<open>Python's \<^verbatim>\<open>xs[a:b]\<close> on a sequence, for any integers \<open>a\<close> and \<open>b\<close>.\<close>

definition slice_index :: "int \<Rightarrow> int \<Rightarrow> nat" where
  "slice_index n i = nat (if i < 0 then max (i + n) 0 else min i n)"

definition py_slice :: "'a list \<Rightarrow> int \<Rightarrow> int \<Rightarrow> 'a list" where
  "py_slice xs a b =
     (let n = int (length xs); lo = slice_index n a; hi = slice_index n b
      in take (hi - lo) (drop lo xs))"

section \<open>The struct module, as far as \<^verbatim>\<open>_packetFormat\<close> needs it\<close>

text \<open>
  \<^verbatim>\<open>'!'\<close> selects network byte order, standard sizes and no padding.  The format
  characters of the module are \<^verbatim>\<open>H\<close> (unsigned, 2 bytes), \<^verbatim>\<open>L\<close> (unsigned, 4 bytes),
  \<^verbatim>\<open>B\<close> (unsigned, 1 byte) and \<^verbatim>\<open>l\<close> (signed, 4 bytes).  Packing a value outside the
  range of its format raises \<^verbatim>\<open>struct.error\<close>, and so does unpacking a string whose length
  is not the size of the format.
\<close>

datatype fmt = Fmt_H | Fmt_L | Fmt_B | Fmt_l

fun fmt_size :: "fmt \<Rightarrow> nat" where
  "fmt_size Fmt_H = 2"
| "fmt_size Fmt_L = 4"
| "fmt_size Fmt_B = 1"
| "fmt_size Fmt_l = 4"

fun fmt_min :: "fmt \<Rightarrow> int" where
  "fmt_min Fmt_l = - (2 ^ 31)"
| "fmt_min _ = 0"

fun fmt_max :: "fmt \<Rightarrow> int" where
  "fmt_max Fmt_H = 2 ^ 16 - 1"
| "fmt_max Fmt_L = 2 ^ 32 - 1"
| "fmt_max Fmt_B = 2 ^ 8 - 1"
| "fmt_max Fmt_l = 2 ^ 31 - 1"

definition calcsize :: "fmt list \<Rightarrow> nat" where
  "calcsize fs = sum_list (map fmt_size fs)"

primrec be_bytes :: "nat \<Rightarrow> int \<Rightarrow> bytes" where
  "be_bytes 0 v = []"
| "be_bytes (Suc n) v = be_bytes n (v div 256) @ [word_of_int v]"

definition from_be :: "bytes \<Rightarrow> int" where
  "from_be bs = foldl (\<lambda>a b. a * 256 + uint b) 0 bs"

definition pack_one :: "fmt \<Rightarrow> int \<Rightarrow> error + bytes" where
  "pack_one f v =
     (if fmt_min f \<le> v \<and> v \<le> fmt_max f then Inr (be_bytes (fmt_size f) v)
      else Inl StructError)"

definition unpack_one :: "fmt \<Rightarrow> bytes \<Rightarrow> int" where
  "unpack_one f bs =
     (let u = from_be bs
      in if f = Fmt_l \<and> 2 ^ 31 \<le> u then u - 2 ^ 32 else u)"

fun struct_pack :: "fmt list \<Rightarrow> int list \<Rightarrow> error + bytes" where
  "struct_pack [] [] = Inr []"
| "struct_pack (f # fs) (v # vs) =
     (case pack_one f v of
        Inl e \<Rightarrow> Inl e
      | Inr b \<Rightarrow> (case struct_pack fs vs of Inl e \<Rightarrow> Inl e | Inr bs \<Rightarrow> Inr (b @ bs)))"
| "struct_pack _ _ = Inl StructError"

fun unpack_fields :: "fmt list \<Rightarrow> bytes \<Rightarrow> int list" where
  "unpack_fields [] bs = []"
| "unpack_fields (f # fs) bs =
     unpack_one f (take (fmt_size f) bs) # unpack_fields fs (drop (fmt_size f) bs)"

definition struct_unpack :: "fmt list \<Rightarrow> bytes \<Rightarrow> error + int list" where
  "struct_unpack fs bs =
     (if length bs = calcsize fs then Inr (unpack_fields fs bs) else Inl StructError)"

section \<open>binascii.crc32\<close>

text \<open>
  The CRC-32 of zlib and binascii (reflected polynomial \<open>0xEDB88320\<close>, initial value and
  final complement \<open>0xFFFFFFFF\<close>).  Python 2's \<^verbatim>\<open>binascii.crc32\<close> returns it as a signed
  32-bit integer, which is why the checksum is packed with \<^verbatim>\<open>l\<close>.
\<close>

definition crc_bit :: "32 word \<Rightarrow> 32 word" where
  "crc_bit c = (if bit c 0 then drop_bit 1 c XOR 0xEDB88320 else drop_bit 1 c)"

definition crc_byte :: "32 word \<Rightarrow> byte \<Rightarrow> 32 word" where
  "crc_byte c b = (crc_bit ^^ 8) (c XOR ucast b)"

definition crc32 :: "bytes \<Rightarrow> int" where
  "crc32 s = sint (foldl crc_byte 0xFFFFFFFF s XOR 0xFFFFFFFF)"

section \<open>The packet: class PTCPPacket\<close>

text \<open>
  \<^verbatim>\<open>_packetFormat = '!HHLLLBlH'\<close>: sourcePseudoPort, destPseudoPort, sequenceNumber,
  acknowledgementNumber, window, flags, checksum, dlen.  \<^verbatim>\<open>_fixedSize\<close> is
  \<^verbatim>\<open>struct.calcsize(_packetFormat)\<close>.
\<close>

definition packetFormat :: "fmt list" where
  "packetFormat = [Fmt_H, Fmt_H, Fmt_L, Fmt_L, Fmt_L, Fmt_B, Fmt_l, Fmt_H]"

definition fixedSize :: nat where
  "fixedSize = calcsize packetFormat"

definition SYN_flag :: int where "SYN_flag = push_bit 0 1"
definition ACK_flag :: int where "ACK_flag = push_bit 1 1"
definition FIN_flag :: int where "FIN_flag = push_bit 2 1"
definition RST_flag :: int where "RST_flag = push_bit 3 1"
definition STB_flag :: int where "STB_flag = push_bit 4 1"

text \<open>
  The attributes of a packet object.  \<open>retransmitCount\<close> is the class attribute (50) until
  an instance assigns it.  \<open>destination\<close> is assigned by \<^verbatim>\<open>create\<close> only: on a packet
  built by the constructor alone (as \<^verbatim>\<open>decode\<close> does) the attribute does not exist, which
  is \<open>None\<close> here; \<open>Some None\<close> is the attribute holding Python's \<^verbatim>\<open>None\<close>.
\<close>

record packet =
  sourcePseudoPort :: int
  destPseudoPort :: int
  seqNum :: int
  ackNum :: int
  window :: int
  flags :: int
  checksum :: int
  dlen :: int
  data :: bytes
  peerAddressTuple :: "addr option"
  seqOffset :: int
  ackOffset :: int
  seqLaps :: int
  ackLaps :: int
  retransmitCount :: int
  destination :: "addr option option"

definition PTCPPacket ::
  "int \<Rightarrow> int \<Rightarrow> int \<Rightarrow> int \<Rightarrow> int \<Rightarrow> int \<Rightarrow> int \<Rightarrow> int \<Rightarrow> bytes \<Rightarrow> addr option \<Rightarrow> packet" where
  "PTCPPacket src dst sq ak win fl ck dl dat peer =
     \<lparr> sourcePseudoPort = src, destPseudoPort = dst, seqNum = sq, ackNum = ak,
       window = win, flags = fl, checksum = ck, dlen = dl, data = dat,
       peerAddressTuple = peer, seqOffset = 0, ackOffset = 0, seqLaps = 0, ackLaps = 0,
       retransmitCount = 50, destination = None \<rparr>"

text \<open>\<^verbatim>\<open>_flagprop(flag)\<close>: the getter and the setter of a flag property.\<close>

definition flag_get :: "int \<Rightarrow> packet \<Rightarrow> bool" where
  "flag_get flag p = (flags p AND flag \<noteq> 0)"

definition flag_set :: "int \<Rightarrow> bool \<Rightarrow> packet \<Rightarrow> packet" where
  "flag_set flag v p =
     (if v then p\<lparr>flags := flags p OR flag\<rparr> else p\<lparr>flags := flags p AND NOT flag\<rparr>)"

definition syn :: "packet \<Rightarrow> bool" where "syn = flag_get SYN_flag"
definition ack :: "packet \<Rightarrow> bool" where "ack = flag_get ACK_flag"
definition fin :: "packet \<Rightarrow> bool" where "fin = flag_get FIN_flag"
definition rst :: "packet \<Rightarrow> bool" where "rst = flag_get RST_flag"
definition stb :: "packet \<Rightarrow> bool" where "stb = flag_get STB_flag"

definition computeChecksum :: "packet \<Rightarrow> int" where
  "computeChecksum p = crc32 (data p)"

definition create ::
  "int \<Rightarrow> int \<Rightarrow> int \<Rightarrow> int \<Rightarrow> bytes \<Rightarrow> int \<Rightarrow> bool \<Rightarrow> bool \<Rightarrow> bool \<Rightarrow> bool \<Rightarrow> bool
     \<Rightarrow> addr option \<Rightarrow> packet" where
  "create src dst sq ak dat win sy ac fi rs st dest =
     (let i = PTCPPacket src dst sq ak win 0 0 (int (length dat)) dat None;
          i = flag_set SYN_flag sy i;
          i = flag_set ACK_flag ac i;
          i = flag_set FIN_flag fi i;
          i = flag_set RST_flag rs i;
          i = flag_set STB_flag st i;
          i = i\<lparr>checksum := computeChecksum i\<rparr>
      in i\<lparr>destination := Some dest\<rparr>)"

definition default_window :: int where
  "default_window = push_bit 15 1"

definition of_bool_int :: "bool \<Rightarrow> int" where
  "of_bool_int b = (if b then 1 else 0)"

definition segmentLength :: "packet \<Rightarrow> int" where
  "segmentLength p = dlen p + of_bool_int (syn p) + of_bool_int (fin p)"

definition relativeSequence :: "int \<Rightarrow> int \<Rightarrow> int \<Rightarrow> int" where
  "relativeSequence wireSequence initialSequence lapNumber =
     (wireSequence + lapNumber * 2 ^ 32) - initialSequence"

definition relativeSeq :: "packet \<Rightarrow> int" where
  "relativeSeq p = relativeSequence (seqNum p) (seqOffset p) (seqLaps p)"

definition relativeAck :: "packet \<Rightarrow> int" where
  "relativeAck p = relativeSequence (ackNum p) (ackOffset p) (ackLaps p)"

definition verifyChecksum :: "packet \<Rightarrow> error + unit" where
  "verifyChecksum p =
     (if int (length (data p)) \<noteq> dlen p then
        (if int (length (data p)) > dlen p then Inl GarbageDataError
         else Inl TruncatedDataError)
      else
        (let expected = computeChecksum p; received = checksum p
         in if expected \<noteq> received then Inl (ChecksumMismatchError expected received)
            else Inr ()))"

definition decode :: "bytes \<Rightarrow> addr option \<Rightarrow> error + packet" where
  "decode bs hostPortPair =
     (case struct_unpack packetFormat (take fixedSize bs) of
        Inl e \<Rightarrow> Inl e
      | Inr fs \<Rightarrow>
          (case fs of
             [src, dst, sq, ak, win, fl, ck, dl] \<Rightarrow>
               Inr (PTCPPacket src dst sq ak win fl ck dl (drop fixedSize bs) hostPortPair)
           | _ \<Rightarrow> Inl StructError))"

definition mustRetransmit :: "packet \<Rightarrow> bool" where
  "mustRetransmit p = (if syn p \<or> fin p \<or> dlen p \<noteq> 0 then True else False)"

definition encode :: "packet \<Rightarrow> error + bytes" where
  "encode p =
     (let dl = int (length (data p)); ck = computeChecksum p
      in case struct_pack packetFormat
                [sourcePseudoPort p, destPseudoPort p, seqNum p, ackNum p, window p,
                 flags p, ck, dl] of
           Inl e \<Rightarrow> Inl e
         | Inr hdr \<Rightarrow> Inr (hdr @ data p))"

text \<open>Encoding and then decoding, and then verifying the checksum as the receiver does.\<close>

definition decode_encode :: "packet \<Rightarrow> addr option \<Rightarrow> error + packet" where
  "decode_encode p a = (case encode p of Inl e \<Rightarrow> Inl e | Inr bs \<Rightarrow> decode bs a)"

definition verify_roundtrip :: "packet \<Rightarrow> addr option \<Rightarrow> error + unit" where
  "verify_roundtrip p a = (case decode_encode p a of Inl e \<Rightarrow> Inl e | Inr q \<Rightarrow> verifyChecksum q)"

text \<open>The header fields are within the ranges of their format characters.\<close>

definition fields_fit :: "packet \<Rightarrow> bool" where
  "fields_fit p =
     (0 \<le> sourcePseudoPort p \<and> sourcePseudoPort p < 2 ^ 16 \<and>
      0 \<le> destPseudoPort p \<and> destPseudoPort p < 2 ^ 16 \<and>
      0 \<le> seqNum p \<and> seqNum p < 2 ^ 32 \<and>
      0 \<le> ackNum p \<and> ackNum p < 2 ^ 32 \<and>
      0 \<le> window p \<and> window p < 2 ^ 32 \<and>
      0 \<le> flags p \<and> flags p < 2 ^ 8 \<and>
      length (data p) < 2 ^ 16)"

text \<open>
  \<^verbatim>\<open>iterchunks(data, chunksize)\<close> is a generator: \<open>iterchunks_next\<close> resumes it with its
  local \<^verbatim>\<open>offt\<close> and returns the chunk it yields and the new \<^verbatim>\<open>offt\<close>, or \<open>None\<close>
  when it is exhausted.
\<close>

definition iterchunks_next :: "bytes \<Rightarrow> int \<Rightarrow> int \<Rightarrow> (bytes \<times> int) option" where
  "iterchunks_next dat chunksize offt =
     (if offt < int (length dat)
      then Some (py_slice dat offt (offt + chunksize), offt + chunksize)
      else None)"

text \<open>The call of \<^verbatim>\<open>self.create\<close> in the loop body of \<^verbatim>\<open>fragment\<close>.\<close>

definition child_of :: "packet \<Rightarrow> int \<Rightarrow> bytes \<Rightarrow> addr option \<Rightarrow> packet" where
  "child_of self seqOfft chunk dest =
     create (sourcePseudoPort self) (destPseudoPort self) (seqNum self + seqOfft)
       (ackNum self) chunk (window self) False (ack self) False False False dest"

text \<open>
  The \<^verbatim>\<open>for\<close> loop of \<^verbatim>\<open>fragment\<close> over the generator.  With a chunk size that is not
  positive the generator never ends, so the loop is a partial function: \<open>None\<close> is the
  loop that does not return.  \<^verbatim>\<open>self.destination\<close> is read in every iteration and raises
  \<^verbatim>\<open>AttributeError\<close> where the attribute does not exist.
\<close>

partial_function (option) fragment_loop ::
  "packet \<Rightarrow> int \<Rightarrow> int \<Rightarrow> int \<Rightarrow> packet list \<Rightarrow> (error + packet list) option" where
  "fragment_loop self mtu offt seqOfft L =
     (case iterchunks_next (data self) mtu offt of
        None \<Rightarrow> Some (Inr L)
      | Some (chunk, offt') \<Rightarrow>
          (case destination self of
             None \<Rightarrow> Some (Inl AttributeError)
           | Some dest \<Rightarrow>
               fragment_loop self mtu offt' (seqOfft + int (length chunk))
                 (L @ [child_of self seqOfft chunk dest])))"

declare fragment_loop.simps [code]

text \<open>
  \<^verbatim>\<open>fragment(mtu)\<close>.  After the loop \<^verbatim>\<open>last\<close> is the last packet appended to \<^verbatim>\<open>L\<close>
  (the same object), and it is unbound when the loop body never ran.
\<close>

definition fragment :: "packet \<Rightarrow> int \<Rightarrow> (error + packet list) option" where
  "fragment self mtu =
     (if dlen self < mtu then Some (Inr [self])
      else if syn self then Some (Inl AssertionError)
      else
        (case fragment_loop self mtu 0 0 [] of
           None \<Rightarrow> None
         | Some (Inl e) \<Rightarrow> Some (Inl e)
         | Some (Inr L) \<Rightarrow>
             (if fin self then
                (if L = [] then Some (Inl UnboundLocalError)
                 else
                   (let l = flag_set FIN_flag (fin self) (last L);
                        l = l\<lparr>checksum := computeChecksum l\<rparr>
                    in Some (Inr (butlast L @ [l]))))
              else Some (Inr L))))"

section \<open>The state machine: class TCP of vertex.tcpdfa\<close>

text \<open>
  The states, inputs and outputs that the class declares with the decorators of
  \<^verbatim>\<open>MethodicalMachine\<close>, under the names of the source with a prefix (\<open>S_\<close>, \<open>I_\<close>,
  \<open>O_\<close>).  \<^verbatim>\<open>closed\<close> is the initial state and \<^verbatim>\<open>broken = closed\<close> is an alias.
\<close>

datatype tcp_state =
    S_closed | S_synSent | S_synRcvd | S_listen | S_established | S_closeWait
  | S_lastAck | S_finWait1 | S_finWait2 | S_closing | S_timeWait

definition S_broken :: tcp_state where
  "S_broken = S_closed"

datatype tcp_input =
    I_appPassiveOpen | I_appActiveOpen | I_timeout | I_appClose | I_synAck | I_ack
  | I_rst | I_appSendData | I_syn | I_fin | I_segmentReceived

datatype tcp_output =
    O_sendSyn | O_sendFin | O_sendSynAck | O_sendAck | O_sendRst
  | O_appNotifyConnected | O_appNotifyDisconnected | O_releaseResources
  | O_startTimeWaiting | O_appNotifyListen | O_appNotifyHalfClose
  | O_appNotifyAttemptFailed

text \<open>
  The calls of \<^verbatim>\<open>upon\<close> in the class body, in the order of the source; the last three
  come from the loop over \<^verbatim>\<open>[finWait1, finWait2, closing]\<close>.
\<close>

definition TCP_upon :: "(tcp_state \<times> tcp_input \<times> tcp_state \<times> tcp_output list) list" where
  "TCP_upon =
     [(S_closed, I_appPassiveOpen, S_listen, [O_appNotifyListen]),
      (S_closed, I_appActiveOpen, S_synSent, [O_sendSyn]),
      (S_synSent, I_timeout, S_closed, [O_appNotifyAttemptFailed, O_releaseResources]),
      (S_synSent, I_appClose, S_closed, [O_appNotifyAttemptFailed, O_releaseResources]),
      (S_synSent, I_synAck, S_established, [O_sendAck, O_appNotifyConnected]),
      (S_synRcvd, I_ack, S_established, [O_appNotifyConnected]),
      (S_synRcvd, I_appClose, S_finWait1, [O_sendFin]),
      (S_synRcvd, I_timeout, S_closed, [O_sendRst, O_releaseResources]),
      (S_synRcvd, I_rst, S_broken, [O_releaseResources]),
      (S_listen, I_appSendData, S_synSent, [O_sendSyn]),
      (S_listen, I_syn, S_synRcvd, [O_sendSynAck]),
      (S_established, I_segmentReceived, S_established, [O_sendAck]),
      (S_established, I_appClose, S_finWait1, [O_appNotifyDisconnected, O_sendFin]),
      (S_established, I_fin, S_closeWait, [O_appNotifyHalfClose, O_sendAck]),
      (S_established, I_timeout, S_broken, [O_appNotifyDisconnected, O_releaseResources]),
      (S_closeWait, I_appClose, S_lastAck, [O_sendFin, O_appNotifyDisconnected]),
      (S_closeWait, I_timeout, S_broken, [O_appNotifyDisconnected, O_releaseResources]),
      (S_lastAck, I_ack, S_closed, [O_releaseResources]),
      (S_lastAck, I_timeout, S_broken, [O_releaseResources]),
      (S_finWait1, I_ack, S_finWait2, []),
      (S_finWait1, I_fin, S_closing, [O_sendAck]),
      (S_finWait1, I_timeout, S_broken, [O_releaseResources]),
      (S_finWait2, I_timeout, S_broken, [O_releaseResources]),
      (S_finWait2, I_fin, S_timeWait, [O_sendAck, O_startTimeWaiting]),
      (S_closing, I_timeout, S_broken, [O_releaseResources]),
      (S_closing, I_ack, S_timeWait, [O_startTimeWaiting]),
      (S_timeWait, I_timeout, S_closed, [O_releaseResources])]
     @ map (\<lambda>noDataState. (noDataState, I_segmentReceived, noDataState, []))
         [S_finWait1, S_finWait2, S_closing]"

text \<open>
  An input method looks up the transition of the current state for its input and raises
  \<^verbatim>\<open>NoTransition\<close> when there is none; otherwise the machine enters the new state and then
  runs the outputs in order.
\<close>

fun lookup_upon ::
  "(tcp_state \<times> tcp_input \<times> tcp_state \<times> tcp_output list) list \<Rightarrow> tcp_state \<Rightarrow> tcp_input
     \<Rightarrow> (tcp_state \<times> tcp_output list) option" where
  "lookup_upon [] s i = None"
| "lookup_upon ((s', i', t, outs) # rest) s i =
     (if s' = s \<and> i' = i then Some (t, outs) else lookup_upon rest s i)"

definition transition :: "tcp_state \<Rightarrow> tcp_input \<Rightarrow> error + (tcp_state \<times> tcp_output list)" where
  "transition s i =
     (case lookup_upon TCP_upon s i of None \<Rightarrow> Inl NoTransition | Some r \<Rightarrow> Inr r)"

text \<open>
  The names of the methods that are inputs of the machine, and the other names that the
  class TCP defines (its states, the alias, its outputs and the attributes that
  \<^verbatim>\<open>__init__\<close> and the class body set).
\<close>

definition TCP_inputs :: "(string \<times> tcp_input) list" where
  "TCP_inputs =
     [(''appPassiveOpen'', I_appPassiveOpen), (''appActiveOpen'', I_appActiveOpen),
      (''timeout'', I_timeout), (''appClose'', I_appClose), (''synAck'', I_synAck),
      (''ack'', I_ack), (''rst'', I_rst), (''appSendData'', I_appSendData),
      (''syn'', I_syn), (''fin'', I_fin), (''segmentReceived'', I_segmentReceived)]"

definition TCP_other_names :: "string list" where
  "TCP_other_names =
     [''_machine'', ''__init__'', ''_impl'',
      ''closed'', ''broken'', ''synSent'', ''synRcvd'', ''listen'', ''established'',
      ''closeWait'', ''lastAck'', ''finWait1'', ''finWait2'', ''closing'', ''timeWait'',
      ''sendSyn'', ''sendFin'', ''sendSynAck'', ''sendAck'', ''sendRst'',
      ''appNotifyConnected'', ''appNotifyDisconnected'', ''releaseResources'',
      ''startTimeWaiting'', ''appNotifyListen'', ''appNotifyHalfClose'',
      ''appNotifyAttemptFailed'']"


section \<open>The connection: class PTCPConnection\<close>

text \<open>
  The collaborators of the connection are outside the repository: the factory, the
  protocol, the producer, the datagram transport, the reactor and the log.  A call on one
  of them is recorded as an \<open>effect\<close>, in order, and is taken to return normally; for the
  two calls that the source wraps in \<^verbatim>\<open>try\<close> with a handler that changes the connection
  (building the protocol, delivering data), the environment \<open>env\<close> says whether the call
  raises.  A timer of the reactor is the attribute that holds it: \<open>True\<close> while a delayed
  call is stored there, \<open>False\<close> for \<^verbatim>\<open>None\<close>.
\<close>

datatype effect =
    TransportWrite bytes "addr option"
  | TransportStopListening
  | AllConnectionsClosed
  | ClientConnectionFailed
  | BuildProtocol
  | DataReceived bytes
  | ConnectionLost
  | ProducerResume
  | ProducerPause
  | ProducerStop
  | LogMessage

record env =
  buildProtocolRaises :: bool
  dataReceivedRaises :: bool

record conn =
  hostPseudoPort :: int
  peerPseudoPort :: int
  connPeerAddressTuple :: "addr option"
  retransmissionQueue :: "packet list"
  oldestUnackedSendSeqNum :: int
  nextSendSeqNum :: int
  hostSendISN :: int
  nextRecvSeqNum :: int
  peerSendISN :: int
  setPeerISN :: bool
  machine :: tcp_state
  mtu :: int
  recvWindow :: int
  sendWindow :: int
  sendWindowRemaining :: int
  protocol :: bool
  paused :: bool
  outgoingBytes :: bytes
  nagle :: bool
  retransmitter :: bool
  ackTimer :: bool
  timeWaitCall :: bool
  closeWaitLoseConnection :: bool
  disconnecting :: bool
  disconnected :: bool
  producer :: bool
  producerPaused :: bool
  streamingProducer :: bool
  wasEverListen :: bool

text \<open>The class attribute \<^verbatim>\<open>mtu = 512 - _fixedSize\<close>.\<close>

definition PTCPConnection_mtu :: int where
  "PTCPConnection_mtu = 512 - int fixedSize"

text \<open>A new connection: the class attributes and the assignments of \<^verbatim>\<open>__init__\<close>.\<close>

definition PTCPConnection :: "int \<Rightarrow> int \<Rightarrow> addr option \<Rightarrow> conn" where
  "PTCPConnection host peer peerAddr =
     \<lparr> hostPseudoPort = host, peerPseudoPort = peer, connPeerAddressTuple = peerAddr,
       retransmissionQueue = [], oldestUnackedSendSeqNum = 0, nextSendSeqNum = 0,
       hostSendISN = 0, nextRecvSeqNum = 0, peerSendISN = 0, setPeerISN = False,
       machine = S_closed,
       mtu = PTCPConnection_mtu, recvWindow = PTCPConnection_mtu,
       sendWindow = PTCPConnection_mtu, sendWindowRemaining = PTCPConnection_mtu * 2,
       protocol = False, paused = False, outgoingBytes = [],
       nagle = False, retransmitter = False, ackTimer = False, timeWaitCall = False,
       closeWaitLoseConnection = False, disconnecting = False, disconnected = False,
       producer = False, producerPaused = False, streamingProducer = False,
       wasEverListen = False \<rparr>"

text \<open>
  The multiplexer (class PTCP), as far as a connection reaches it through \<^verbatim>\<open>self.ptcp\<close>.
  \<^verbatim>\<open>_connections\<close> is a dictionary; its keys are (pseudo-port, pseudo-port, address)
  triples.  It is an association list with distinct keys here.
\<close>

type_synonym key = "int \<times> int \<times> addr option"

record mux =
  factoryIsNone :: bool
  transportGoneAway :: bool
  connections :: "(key \<times> conn) list"
  stopped :: bool

text \<open>
  A method of a connection runs on the connection \<open>this\<close>, the multiplexer \<open>ptcp\<close> it
  refers to, and the effects so far.  It returns the state it leaves behind with
  \<open>Inr ()\<close> when it returns and \<open>Inl e\<close> when it raises \<open>e\<close> (the assignments made before
  the exception stay); \<open>None\<close> is a call that does not return.
\<close>

record world =
  this :: conn
  ptcp :: mux
  trace :: "effect list"

type_synonym act = "world \<Rightarrow> (world \<times> (error + unit)) option"

definition ok :: act where
  "ok w = Some (w, Inr ())"

definition raise :: "error \<Rightarrow> act" where
  "raise e w = Some (w, Inl e)"

definition seq :: "act \<Rightarrow> act \<Rightarrow> act" where
  "seq a b w =
     (case a w of
        None \<Rightarrow> None
      | Some (w', Inl e) \<Rightarrow> Some (w', Inl e)
      | Some (w', Inr u) \<Rightarrow> b w')"

fun seqs :: "act list \<Rightarrow> act" where
  "seqs [] = ok"
| "seqs (a # as) = seq a (seqs as)"

definition modify :: "(conn \<Rightarrow> conn) \<Rightarrow> act" where
  "modify f w = Some (w\<lparr>this := f (this w)\<rparr>, Inr ())"

definition emit :: "effect \<Rightarrow> act" where
  "emit e w = Some (w\<lparr>trace := trace w @ [e]\<rparr>, Inr ())"

definition cond :: "(conn \<Rightarrow> bool) \<Rightarrow> act \<Rightarrow> act \<Rightarrow> act" where
  "cond b x y w = (if b (this w) then x w else y w)"

definition assert :: "(conn \<Rightarrow> bool) \<Rightarrow> act" where
  "assert b = cond b ok (raise AssertionError)"

subsection \<open>Sending\<close>

definition currentAckNum :: "conn \<Rightarrow> int" where
  "currentAckNum c = (nextRecvSeqNum c + peerSendISN c) mod 2 ^ 32"

text \<open>
  \<^verbatim>\<open>PTCP.sendPacket\<close>: nothing when the transport has gone away; otherwise
  \<^verbatim>\<open>self.transport.write(packet.encode(), packet.destination)\<close>, whose arguments are
  evaluated from left to right.
\<close>

definition mux_sendPacket :: "mux \<Rightarrow> packet \<Rightarrow> error + effect list" where
  "mux_sendPacket mx p =
     (if transportGoneAway mx then Inr []
      else
        (case encode p of
           Inl e \<Rightarrow> Inl e
         | Inr bs \<Rightarrow>
             (case destination p of
                None \<Rightarrow> Inl AttributeError
              | Some dest \<Rightarrow> Inr [TransportWrite bs dest])))"

definition sendPacket :: "packet \<Rightarrow> act" where
  "sendPacket p w =
     (case mux_sendPacket (ptcp w) p of
        Inl e \<Rightarrow> Some (w, Inl e)
      | Inr es \<Rightarrow> Some (w\<lparr>trace := trace w @ es\<rparr>, Inr ()))"

definition retransmitLater :: act where
  "retransmitLater = cond (\<lambda>c. \<not> retransmitter c) (modify (\<lambda>c. c\<lparr>retransmitter := True\<rparr>)) ok"

definition writeBufferFull :: act where
  "writeBufferFull =
     cond (\<lambda>c. producer c \<and> \<not> producerPaused c)
       (seqs [modify (\<lambda>c. c\<lparr>producerPaused := True\<rparr>), emit ProducerPause])
       ok"

text \<open>
  \<^verbatim>\<open>originate(data, syn, ack, fin, rst)\<close>: \<open>new_packet\<close> is the packet that it creates,
  \<open>originate_packet\<close> what it does with the packet.
\<close>

definition new_packet :: "conn \<Rightarrow> bytes \<Rightarrow> bool \<Rightarrow> bool \<Rightarrow> bool \<Rightarrow> bool \<Rightarrow> packet" where
  "new_packet c dat sy ac fi rs =
     create (hostPseudoPort c) (peerPseudoPort c)
       ((nextSendSeqNum c + hostSendISN c) mod 2 ^ 32) (currentAckNum c) dat
       (recvWindow c) sy ac fi rs False (connPeerAddressTuple c)"

definition originate_packet :: "packet \<Rightarrow> act" where
  "originate_packet p =
     seqs
      [modify (\<lambda>c. c\<lparr>nextSendSeqNum := nextSendSeqNum c + segmentLength p\<rparr>),
       (if mustRetransmit p then
          seqs
           [cond (\<lambda>c. retransmissionQueue c \<noteq> [] \<and> fin (last (retransmissionQueue c)))
              (raise AssertionError) ok,
            modify (\<lambda>c. c\<lparr>retransmissionQueue := retransmissionQueue c @ [p]\<rparr>),
            retransmitLater,
            cond (\<lambda>c. sendWindowRemaining c = 0) writeBufferFull ok]
        else ok),
       sendPacket p]"

definition originate :: "bytes \<Rightarrow> bool \<Rightarrow> bool \<Rightarrow> bool \<Rightarrow> bool \<Rightarrow> act" where
  "originate dat sy ac fi rs =
     seqs
      [cond ackTimer (modify (\<lambda>c. c\<lparr>ackTimer := False\<rparr>)) ok,
       (if sy then seqs [assert (\<lambda>c. nextSendSeqNum c = 0), assert (\<lambda>c. hostSendISN c = 0)]
        else ok),
       (\<lambda>w. originate_packet (new_packet (this w) dat sy ac fi rs) w)]"

definition originateOneData :: act where
  "originateOneData w =
     (let amount = min (sendWindowRemaining (this w)) (mtu (this w));
          sendOut = py_slice (outgoingBytes (this w)) 0 amount
      in seqs
          [modify (\<lambda>c. c\<lparr>outgoingBytes :=
              py_slice (outgoingBytes c) amount (int (length (outgoingBytes c)))\<rparr>),
           modify (\<lambda>c. c\<lparr>sendWindowRemaining := sendWindowRemaining c - int (length sendOut)\<rparr>),
           originate sendOut False True False False] w)"

text \<open>
  The \<^verbatim>\<open>while\<close> loop of \<^verbatim>\<open>_reallyWrite\<close>.  It does not end when an iteration takes no
  bytes from the buffer (an MTU of 0), so it is a partial function.
\<close>

partial_function (option) reallyWrite_loop :: "world \<Rightarrow> (world \<times> (error + unit)) option" where
  "reallyWrite_loop w =
     (if sendWindowRemaining (this w) \<noteq> 0 \<and> outgoingBytes (this w) \<noteq> [] then
        (case originateOneData w of
           None \<Rightarrow> None
         | Some (w', Inl e) \<Rightarrow> Some (w', Inl e)
         | Some (w', Inr u) \<Rightarrow> reallyWrite_loop w')
      else Some (w, Inr ()))"

declare reallyWrite_loop.simps [code]

definition reallyWrite :: act where
  "reallyWrite =
     seqs [modify (\<lambda>c. c\<lparr>nagle := False\<rparr>),
           cond (\<lambda>c. outgoingBytes c \<noteq> []) reallyWrite_loop ok]"

definition writeLater :: act where
  "writeLater = cond (\<lambda>c. \<not> nagle c) (modify (\<lambda>c. c\<lparr>nagle := True\<rparr>)) ok"

text \<open>\<^verbatim>\<open>write(bytes)\<close>, named \<open>write_bytes\<close> here.\<close>

definition write_bytes :: "bytes \<Rightarrow> act" where
  "write_bytes bs =
     seqs [assert (\<lambda>c. \<not> disconnected c),
           modify (\<lambda>c. c\<lparr>outgoingBytes := outgoingBytes c @ bs\<rparr>),
           writeLater]"

definition writeSequence :: "bytes list \<Rightarrow> act" where
  "writeSequence sq = write_bytes (concat sq)"

definition stopRetransmitting :: act where
  "stopRetransmitting =
     seqs [cond retransmitter (modify (\<lambda>c. c\<lparr>retransmitter := False\<rparr>)) ok,
           cond nagle (modify (\<lambda>c. c\<lparr>nagle := False\<rparr>)) ok,
           cond closeWaitLoseConnection (modify (\<lambda>c. c\<lparr>closeWaitLoseConnection := False\<rparr>)) ok]"

text \<open>
  In the methods below \<open>call\<close> is \<^verbatim>\<open>self.machine.<name>()\<close>, a call of a method of the
  state machine by its name.
\<close>

definition writeBufferEmpty :: "(string \<Rightarrow> act) \<Rightarrow> act" where
  "writeBufferEmpty call =
     cond (\<lambda>c. outgoingBytes c \<noteq> []) reallyWrite
       (cond producer
          (cond (\<lambda>c. \<not> streamingProducer c \<or> producerPaused c)
             (seqs [modify (\<lambda>c. c\<lparr>producerPaused := False\<rparr>), emit ProducerResume])
             ok)
          (cond (\<lambda>c. disconnecting c \<and> \<not> disconnected c) (call ''appClose'') ok))"

definition loseConnection :: "(string \<Rightarrow> act) \<Rightarrow> act" where
  "loseConnection call =
     cond (\<lambda>c. \<not> disconnecting c)
       (seqs [modify (\<lambda>c. c\<lparr>disconnecting := True\<rparr>),
              cond (\<lambda>c. outgoingBytes c = []) (writeBufferEmpty call) ok])
       ok"

definition ackSoon :: act where
  "ackSoon = cond (\<lambda>c. \<not> ackTimer c) (modify (\<lambda>c. c\<lparr>ackTimer := True\<rparr>)) ok"

subsection \<open>The effects of the machine's outputs\<close>

text \<open>\<^verbatim>\<open>PTCP._stop\<close> and \<^verbatim>\<open>PTCP.connectionClosed\<close>.\<close>

definition mux_stop :: "mux \<Rightarrow> mux \<times> effect list" where
  "mux_stop mx =
     (if \<not> stopped mx then (mx\<lparr>stopped := True\<rparr>, [TransportStopListening]) else (mx, []))"

definition packey_of :: "conn \<Rightarrow> key" where
  "packey_of c = (peerPseudoPort c, hostPseudoPort c, connPeerAddressTuple c)"

definition mux_connectionClosed :: "mux \<Rightarrow> conn \<Rightarrow> error + (mux \<times> effect list)" where
  "mux_connectionClosed mx ptcpConn =
     (let packey = packey_of ptcpConn
      in if map_of (connections mx) packey = None then Inl KeyError
         else
           (let m1 = mx\<lparr>connections := AList.delete packey (connections mx)\<rparr>;
                (m2, es1) =
                   (if \<not> transportGoneAway m1 \<and> connections m1 = [] \<and> factoryIsNone m1
                    then mux_stop m1 else (m1, []));
                es2 = (if connections m2 = [] then [AllConnectionsClosed] else [])
            in Inr (m2, es1 @ es2)))"

definition connectionClosed :: act where
  "connectionClosed w =
     (case mux_connectionClosed (ptcp w) (this w) of
        Inl e \<Rightarrow> Some (w, Inl e)
      | Inr (mx, es) \<Rightarrow> Some (w\<lparr>ptcp := mx, trace := trace w @ es\<rparr>, Inr ()))"

definition outgoingConnectionFailed :: act where
  "outgoingConnectionFailed = emit ClientConnectionFailed"

definition nowListeningSocket :: act where
  "nowListeningSocket = modify (\<lambda>c. c\<lparr>wasEverListen := True\<rparr>)"

definition releaseConnectionResources :: act where
  "releaseConnectionResources =
     seqs [connectionClosed,
           stopRetransmitting,
           cond timeWaitCall (modify (\<lambda>c. c\<lparr>timeWaitCall := False\<rparr>)) ok,
           cond ackTimer (modify (\<lambda>c. c\<lparr>ackTimer := False\<rparr>)) ok]"

definition scheduleTimeWaitTimeout :: act where
  "scheduleTimeWaitTimeout =
     seqs [stopRetransmitting, modify (\<lambda>c. c\<lparr>timeWaitCall := True\<rparr>)]"

text \<open>
  \<^verbatim>\<open>connectionJustEstablished\<close>: when building the protocol raises, the handler logs
  twice (\<^verbatim>\<open>log.msg\<close>, then \<^verbatim>\<open>log.err\<close>) and calls \<^verbatim>\<open>loseConnection\<close>; otherwise the
  protocol is stored.
\<close>

definition connectionJustEstablished :: "(string \<Rightarrow> act) \<Rightarrow> env \<Rightarrow> act" where
  "connectionJustEstablished call ev =
     seqs [assert (\<lambda>c. \<not> disconnecting c),
           assert (\<lambda>c. \<not> disconnected c),
           emit BuildProtocol,
           (if buildProtocolRaises ev then
              seqs [emit LogMessage, emit LogMessage, loseConnection call]
            else modify (\<lambda>c. c\<lparr>protocol := True\<rparr>))]"

text \<open>
  \<^verbatim>\<open>connectionJustEnded\<close>: both calls on collaborators are inside \<^verbatim>\<open>try\<close> with a handler
  that only logs, so the connection ends in the same state whether they raise or not.
\<close>

definition connectionJustEnded :: act where
  "connectionJustEnded =
     seqs [assert (\<lambda>c. \<not> disconnected c),
           modify (\<lambda>c. c\<lparr>disconnected := True\<rparr>),
           cond protocol (emit ConnectionLost) (emit LogMessage),
           modify (\<lambda>c. c\<lparr>protocol := False\<rparr>),
           cond producer (seqs [emit ProducerStop, modify (\<lambda>c. c\<lparr>producer := False\<rparr>)]) ok]"

definition nowHalfClosed :: act where
  "nowHalfClosed = modify (\<lambda>c. c\<lparr>closeWaitLoseConnection := True\<rparr>)"

text \<open>The body of each output method of the class TCP, on \<^verbatim>\<open>self._impl\<close>.\<close>

fun output_impl :: "(string \<Rightarrow> act) \<Rightarrow> env \<Rightarrow> tcp_output \<Rightarrow> act" where
  "output_impl call ev O_sendSyn = originate [] True False False False"
| "output_impl call ev O_sendFin = originate [] False False True False"
| "output_impl call ev O_sendSynAck = originate [] True True False False"
| "output_impl call ev O_sendAck = originate [] False True False False"
| "output_impl call ev O_sendRst = originate [] False False False True"
| "output_impl call ev O_appNotifyConnected = connectionJustEstablished call ev"
| "output_impl call ev O_appNotifyDisconnected = connectionJustEnded"
| "output_impl call ev O_releaseResources = releaseConnectionResources"
| "output_impl call ev O_startTimeWaiting = scheduleTimeWaitTimeout"
| "output_impl call ev O_appNotifyListen = nowListeningSocket"
| "output_impl call ev O_appNotifyHalfClose = nowHalfClosed"
| "output_impl call ev O_appNotifyAttemptFailed = outgoingConnectionFailed"

text \<open>
  An input of the machine: the transition of the current state is looked up, the machine
  enters the new state, and the outputs run in order; an output that raises ends the
  input there.
\<close>

definition feed_with :: "(string \<Rightarrow> act) \<Rightarrow> env \<Rightarrow> tcp_input \<Rightarrow> act" where
  "feed_with call ev i w =
     (case transition (machine (this w)) i of
        Inl e \<Rightarrow> Some (w, Inl e)
      | Inr (t, outs) \<Rightarrow>
          seqs (map (output_impl call ev) outs) (w\<lparr>this := (this w)\<lparr>machine := t\<rparr>\<rparr>))"

text \<open>
  \<^verbatim>\<open>self.machine.<name>()\<close>: an input of the machine when the class TCP declares an input
  of that name, and \<^verbatim>\<open>AttributeError\<close> when the class has no attribute of that name.
  (The other names of the class are states and outputs; vertex.ptcp calls none of them.)
\<close>

definition machine_call_with :: "(string \<Rightarrow> act) \<Rightarrow> env \<Rightarrow> string \<Rightarrow> act" where
  "machine_call_with call ev name =
     (case map_of TCP_inputs name of
        Some i \<Rightarrow> feed_with call ev i
      | None \<Rightarrow>
          (if name \<in> set TCP_other_names then raise NotAnInput else raise AttributeError))"

text \<open>
  An output can call the machine again: the handler in \<^verbatim>\<open>connectionJustEstablished\<close>
  reaches \<^verbatim>\<open>self.machine.appClose()\<close> through \<^verbatim>\<open>loseConnection\<close>.  No transition for
  \<^verbatim>\<open>appClose\<close> has the output \<^verbatim>\<open>appNotifyConnected\<close>, so the calls nest twice at most:
  \<open>machine_call\<close> unfolds the recursion twice, and lemma \<open>machine_call_fixpoint\<close> below
  shows that it satisfies the recursive equation of the source.
\<close>

definition no_call :: "string \<Rightarrow> act" where
  "no_call name = raise NestedTooDeep"

definition machine_call :: "env \<Rightarrow> string \<Rightarrow> act" where
  "machine_call ev = machine_call_with (machine_call_with no_call ev) ev"

subsection \<open>Receiving: \<^verbatim>\<open>PTCPConnection.packetReceived\<close>\<close>

definition segmentAcceptable :: "int \<Rightarrow> int \<Rightarrow> int \<Rightarrow> int \<Rightarrow> error + bool" where
  "segmentAcceptable RCV_NXT RCV_WND SEG_SEQ SEG_LEN =
     (if SEG_LEN = 0 \<and> RCV_WND = 0 then Inr (SEG_SEQ = RCV_NXT)
      else if SEG_LEN = 0 \<and> RCV_WND > 0 then
        Inr (RCV_NXT \<le> SEG_SEQ \<and> SEG_SEQ < RCV_NXT + RCV_WND)
      else if SEG_LEN > 0 \<and> RCV_WND = 0 then Inr False
      else if SEG_LEN > 0 \<and> RCV_WND > 0 then
        Inr ((RCV_NXT \<le> SEG_SEQ \<and> SEG_SEQ < RCV_NXT + RCV_WND)
             \<or> (RCV_NXT \<le> SEG_SEQ + SEG_LEN - 1 \<and> SEG_SEQ + SEG_LEN - 1 < RCV_NXT + RCV_WND))
      else Inl AssertionError)"

definition ackAcceptable :: "int \<Rightarrow> int \<Rightarrow> int \<Rightarrow> bool" where
  "ackAcceptable SND_UNA SEG_ACK SND_NXT = (SND_UNA < SEG_ACK \<and> SEG_ACK \<le> SND_NXT)"

text \<open>
  The loop over the retransmission queue in the STB branch:
  \<^verbatim>\<open>rq.extend(pkt.fragment(self.mtu))\<close> for every packet of the queue.
\<close>

fun extend_fragments :: "packet list \<Rightarrow> int \<Rightarrow> packet list \<Rightarrow> (error + packet list) option" where
  "extend_fragments [] m rq = Some (Inr rq)"
| "extend_fragments (pkt # rest) m rq =
     (case fragment pkt m of
        None \<Rightarrow> None
      | Some (Inl e) \<Rightarrow> Some (Inl e)
      | Some (Inr L) \<Rightarrow> extend_fragments rest m (rq @ L))"

definition shrinkMTU :: "packet \<Rightarrow> act" where
  "shrinkMTU packet w =
     (case struct_unpack [Fmt_H] (data packet) of
        Inl e \<Rightarrow> Some (w, Inl e)
      | Inr vs \<Rightarrow>
          (case vs of
             [m] \<Rightarrow>
               (let w1 = w\<lparr>this := (this w)\<lparr>mtu := m\<rparr>\<rparr>
                in case extend_fragments (retransmissionQueue (this w1)) (mtu (this w1)) [] of
                     None \<Rightarrow> None
                   | Some (Inl e) \<Rightarrow> Some (w1, Inl e)
                   | Some (Inr rq) \<Rightarrow>
                       Some (w1\<lparr>this := (this w1)\<lparr>retransmissionQueue := rq\<rparr>\<rparr>, Inr ()))
           | _ \<Rightarrow> Some (w, Inl StructError)))"

text \<open>
  The \<^verbatim>\<open>while\<close> loop of the acknowledgement block: it pops the head of the queue while
  the head is fully acknowledged, and adds the segment length of each popped packet to
  \<^verbatim>\<open>sendWindowRemaining\<close>.  It returns the queue and the counter.
\<close>

fun drain :: "int \<Rightarrow> packet list \<Rightarrow> int \<Rightarrow> packet list \<times> int" where
  "drain relAck [] swr = ([], swr)"
| "drain relAck (p # rq) swr =
     (if relativeSeq p + segmentLength p \<le> relAck
      then drain relAck rq (swr + segmentLength p)
      else (p # rq, swr))"

definition processAck :: "(string \<Rightarrow> act) \<Rightarrow> packet \<Rightarrow> act" where
  "processAck call packet =
     cond (\<lambda>c. ack packet \<and>
                ackAcceptable (oldestUnackedSendSeqNum c) (relativeAck packet) (nextSendSeqNum c))
       (seqs
         [modify (\<lambda>c.
            (let (rq, swr) = drain (relativeAck packet) (retransmissionQueue c)
                               (sendWindowRemaining c)
             in c\<lparr>retransmissionQueue := rq, sendWindowRemaining := swr\<rparr>)),
          modify (\<lambda>c. c\<lparr>oldestUnackedSendSeqNum := relativeAck packet\<rparr>),
          call ''maybeReceiveAck'',
          cond (\<lambda>c. retransmissionQueue c = []) (writeBufferEmpty call) ok])
       ok"

definition deliver :: "(string \<Rightarrow> act) \<Rightarrow> env \<Rightarrow> packet \<Rightarrow> act" where
  "deliver call ev packet w =
     (let c = this w;
          usefulData = py_slice (data packet) (nextRecvSeqNum c - relativeSeq packet)
                         (int (length (data packet)))
      in seqs
          [call ''segmentReceived'',
           cond protocol
             (seqs [emit (DataReceived usefulData),
                    (if dataReceivedRaises ev then seqs [emit LogMessage, loseConnection call]
                     else ok)])
             ok] w)"

definition processSegment :: "(string \<Rightarrow> act) \<Rightarrow> env \<Rightarrow> packet \<Rightarrow> act" where
  "processSegment call ev packet w =
     (if segmentLength packet = 0 then
        (if ack packet then Some (w, Inr ()) else Some (w, Inl AssertionError))
      else
        (case segmentAcceptable (nextRecvSeqNum (this w)) (recvWindow (this w))
                (relativeSeq packet) (segmentLength packet) of
           Inl e \<Rightarrow> Some (w, Inl e)
         | Inr False \<Rightarrow> ackSoon w
         | Inr True \<Rightarrow>
             (if relativeSeq packet > nextRecvSeqNum (this w) then Some (w, Inr ())
              else
                seqs
                 [(if dlen packet \<noteq> 0 then deliver call ev packet else ok),
                  modify (\<lambda>c. c\<lparr>nextRecvSeqNum := nextRecvSeqNum c + segmentLength packet\<rparr>),
                  (if fin packet then call ''fin''
                   else if segmentLength packet > 0 then ackSoon else ok)] w)))"

definition processSyn :: "(string \<Rightarrow> act) \<Rightarrow> packet \<Rightarrow> act \<Rightarrow> act" where
  "processSyn call packet rest =
     seqs
      [(if segmentLength packet = 1 then ok else raise AssertionError),
       cond (\<lambda>c. connPeerAddressTuple c = None)
         (seqs [assert wasEverListen,
                modify (\<lambda>c. c\<lparr>connPeerAddressTuple := peerAddressTuple packet\<rparr>)])
         (assert (\<lambda>c. connPeerAddressTuple c = peerAddressTuple packet)),
       cond setPeerISN
         (cond (\<lambda>c. peerSendISN c \<noteq> seqNum packet) (raise BadPacketError) ok)
         (seqs
           [modify (\<lambda>c. c\<lparr>setPeerISN := True\<rparr>),
            modify (\<lambda>c. c\<lparr>peerSendISN := seqNum packet\<rparr>),
            modify (\<lambda>c. c\<lparr>nextRecvSeqNum := nextRecvSeqNum c + segmentLength packet\<rparr>),
            (if \<not> ack packet then call ''syn'' else ok),
            rest])]"

text \<open>
  \<^verbatim>\<open>packetReceived(packet)\<close>, with the machine called through \<open>call\<close>.  A \<^verbatim>\<open>return\<close> in
  the middle of the source is the end of the nested conditional here: \<open>rest\<close> is what
  follows the SYN block.
\<close>

definition packetReceived_with :: "(string \<Rightarrow> act) \<Rightarrow> env \<Rightarrow> packet \<Rightarrow> act" where
  "packetReceived_with call ev packet =
     (if stb packet then shrinkMTU packet
      else
        cond paused ok
          (if syn packet \<and> dlen packet \<noteq> 0 then raise BadPacketError
           else
             (let rest = seqs [processAck call packet, processSegment call ev packet]
              in if syn packet then processSyn call packet rest else rest)))"

definition packetReceived :: "env \<Rightarrow> packet \<Rightarrow> act" where
  "packetReceived ev = packetReceived_with (machine_call ev) ev"

subsection \<open>Timers and the application's calls\<close>

text \<open>
  The \<^verbatim>\<open>for\<close> loop of \<^verbatim>\<open>_reallyRetransmit\<close> over the queue.  The packets are objects of
  the queue, which the loop changes in place: \<open>seen\<close> are the packets already visited, as
  they are now.  After the last packet the method calls \<^verbatim>\<open>_retransmitLater\<close>; the
  \<^verbatim>\<open>return\<close> after \<^verbatim>\<open>timeout\<close> skips it.
\<close>

fun retransmit_loop :: "(string \<Rightarrow> act) \<Rightarrow> packet list \<Rightarrow> packet list \<Rightarrow> act" where
  "retransmit_loop call seen [] = retransmitLater"
| "retransmit_loop call seen (packet # todo) =
     (let p1 = packet\<lparr>retransmitCount := retransmitCount packet - 1\<rparr>
      in if retransmitCount p1 \<noteq> 0 then
           (\<lambda>w.
              (let p2 = p1\<lparr>ackNum := currentAckNum (this w)\<rparr>
               in seqs
                   [modify (\<lambda>c. c\<lparr>retransmissionQueue := seen @ p2 # todo\<rparr>),
                    sendPacket p2,
                    retransmit_loop call (seen @ [p2]) todo] w))
         else
           seqs [modify (\<lambda>c. c\<lparr>retransmissionQueue := seen @ p1 # todo\<rparr>),
                 call ''timeout''])"

definition reallyRetransmit_with :: "(string \<Rightarrow> act) \<Rightarrow> act" where
  "reallyRetransmit_with call =
     seqs [modify (\<lambda>c. c\<lparr>retransmitter := False\<rparr>),
           cond (\<lambda>c. retransmissionQueue c \<noteq> [])
             (\<lambda>w. retransmit_loop call [] (retransmissionQueue (this w)) w)
             ok]"

definition reallyRetransmit :: "env \<Rightarrow> act" where
  "reallyRetransmit ev = reallyRetransmit_with (machine_call ev)"

definition originateAck :: act where
  "originateAck = seqs [modify (\<lambda>c. c\<lparr>ackTimer := False\<rparr>), originate [] False True False False]"

definition do2mslTimeout :: "env \<Rightarrow> act" where
  "do2mslTimeout ev = seqs [modify (\<lambda>c. c\<lparr>timeWaitCall := False\<rparr>), machine_call ev ''timeout'']"

definition appCloseNow :: "env \<Rightarrow> act" where
  "appCloseNow ev =
     seqs [modify (\<lambda>c. c\<lparr>closeWaitLoseConnection := False\<rparr>), loseConnection (machine_call ev)]"

definition registerProducer :: "bool \<Rightarrow> act" where
  "registerProducer streaming =
     cond producer (raise RuntimeError)
       (cond disconnected (emit ProducerStop)
          (seqs [modify (\<lambda>c. c\<lparr>producer := True\<rparr>),
                 modify (\<lambda>c. c\<lparr>streamingProducer := streaming\<rparr>),
                 cond (\<lambda>c. \<not> streaming \<and> outgoingBytes c = []) (emit ProducerResume) ok]))"

definition unregisterProducer :: "env \<Rightarrow> act" where
  "unregisterProducer ev =
     seqs [modify (\<lambda>c. c\<lparr>producer := False\<rparr>),
           cond (\<lambda>c. outgoingBytes c = []) (writeBufferEmpty (machine_call ev)) ok]"

definition pauseProducing :: act where
  "pauseProducing = modify (\<lambda>c. c\<lparr>paused := True\<rparr>)"

definition resumeProducing :: act where
  "resumeProducing = modify (\<lambda>c. c\<lparr>paused := False\<rparr>)"

section \<open>The multiplexer: class PTCP\<close>

text \<open>
  The multiplexer with all the connection objects that exist: those in its dictionary, and
  \<open>detached\<close>, the connections that were removed from the dictionary (their timers and the
  application still hold them).  \<open>nextConnID\<close> is the module's counter \<^verbatim>\<open>genConnID\<close>.
\<close>

record sys =
  mx :: mux
  detached :: "conn list"
  tr :: "effect list"
  nextConnID :: int

type_synonym mact = "sys \<Rightarrow> (sys \<times> (error + unit)) option"


text \<open>\<^verbatim>\<open>PTCP(factory)\<close> after \<^verbatim>\<open>startProtocol\<close>.\<close>

definition startProtocol :: "bool \<Rightarrow> sys" where
  "startProtocol noFactory =
     \<lparr> mx = \<lparr> factoryIsNone = noFactory, transportGoneAway = False, connections = [],
              stopped = False \<rparr>,
       detached = [], tr = [], nextConnID = 8 \<rparr>"

text \<open>
  A method of the connection object stored under a key runs on the multiplexer.  When it
  ends, the entries that it removed from the dictionary are detached connections, and the
  object under the key has the state the method left.
\<close>

definition removed_conns :: "(key \<times> conn) list \<Rightarrow> (key \<times> conn) list \<Rightarrow> key \<Rightarrow> conn \<Rightarrow> conn list" where
  "removed_conns old new k c =
     map (\<lambda>(k', c'). if k' = k then c else c')
       (filter (\<lambda>(k', c'). map_of new k' = None) old)"

definition settle :: "key \<Rightarrow> sys \<Rightarrow> world \<Rightarrow> sys" where
  "settle k s w =
     s\<lparr> mx := (ptcp w)\<lparr>connections :=
               (if map_of (connections (ptcp w)) k = None then connections (ptcp w)
                else AList.update k (this w) (connections (ptcp w)))\<rparr>,
        detached := detached s @ removed_conns (connections (mx s)) (connections (ptcp w)) k (this w),
        tr := trace w \<rparr>"

definition run_conn :: "key \<Rightarrow> act \<Rightarrow> mact" where
  "run_conn k a s =
     (case map_of (connections (mx s)) k of
        None \<Rightarrow> Some (s, Inl KeyError)
      | Some c \<Rightarrow>
          (case a \<lparr>this = c, ptcp = mx s, trace = tr s\<rparr> of
             None \<Rightarrow> None
           | Some (w, r) \<Rightarrow> Some (settle k s w, r)))"

text \<open>
  \<^verbatim>\<open>PTCP.packetReceived\<close>: the new connection of a passive open, and the
  \<^verbatim>\<open>try\<close> statement around the connection's \<^verbatim>\<open>packetReceived\<close>.
\<close>

definition passiveOpen :: "env \<Rightarrow> packet \<Rightarrow> key \<Rightarrow> mact" where
  "passiveOpen ev packet packey s =
     (let c = PTCPConnection (destPseudoPort packet) (sourcePseudoPort packet)
                (peerAddressTuple packet)
      in case machine_call ev ''appPassiveOpen'' \<lparr>this = c, ptcp = mx s, trace = tr s\<rparr> of
           None \<Rightarrow> None
         | Some (w, Inl e) \<Rightarrow>
             Some (s\<lparr>mx := ptcp w, detached := detached s @ [this w], tr := trace w\<rparr>, Inl e)
         | Some (w, Inr u) \<Rightarrow>
             Some (s\<lparr>mx := (ptcp w)\<lparr>connections :=
                          AList.update packey (this w) (connections (ptcp w))\<rparr>,
                     tr := trace w\<rparr>, Inr ()))"

definition dispatch :: "env \<Rightarrow> packet \<Rightarrow> key \<Rightarrow> mact" where
  "dispatch ev packet packey s =
     (case run_conn packey (packetReceived ev packet) s of
        None \<Rightarrow> None
      | Some (s', Inr u) \<Rightarrow> Some (s', Inr ())
      | Some (s', Inl e) \<Rightarrow>
          (case map_of (connections (mx s')) packey of
             None \<Rightarrow> Some (s'\<lparr>tr := tr s' @ [LogMessage, LogMessage]\<rparr>, Inl KeyError)
           | Some c \<Rightarrow>
               Some (s'\<lparr>mx := (mx s')\<lparr>connections := AList.delete packey (connections (mx s'))\<rparr>,
                       detached := detached s' @ [c],
                       tr := tr s' @ [LogMessage, LogMessage]\<rparr>, Inr ())))"

definition mux_packetReceived :: "env \<Rightarrow> packet \<Rightarrow> mact" where
  "mux_packetReceived ev packet s =
     (let packey = (sourcePseudoPort packet, destPseudoPort packet, peerAddressTuple packet)
      in if map_of (connections (mx s)) packey = None then
           (if flags packet = SYN_flag \<and> destPseudoPort packet = 1 then
              (case passiveOpen ev packet packey s of
                 None \<Rightarrow> None
               | Some (s', Inl e) \<Rightarrow> Some (s', Inl e)
               | Some (s', Inr u) \<Rightarrow> dispatch ev packet packey s')
            else Some (s\<lparr>tr := tr s @ [LogMessage]\<rparr>, Inr ()))
         else dispatch ev packet packey s)"

text \<open>\<^verbatim>\<open>PTCP.datagramReceived(bytes, addr)\<close>.\<close>

definition stb_reply :: "packet \<Rightarrow> addr \<Rightarrow> error + packet" where
  "stb_reply pkt a =
     (case struct_pack [Fmt_H] [int (length (data pkt))] of
        Inl e \<Rightarrow> Inl e
      | Inr payload \<Rightarrow>
          Inr (create (destPseudoPort pkt) (sourcePseudoPort pkt) 0 0 payload default_window
                 False False False False True (Some a)))"

definition datagramReceived :: "env \<Rightarrow> bytes \<Rightarrow> addr \<Rightarrow> mact" where
  "datagramReceived ev bs a s =
     (if length bs < fixedSize then Some (s, Inr ())
      else
        (case decode bs (Some a) of
           Inl e \<Rightarrow> Some (s, Inl e)
         | Inr pkt \<Rightarrow>
             (case verifyChecksum pkt of
                Inl TruncatedDataError \<Rightarrow>
                  (case stb_reply pkt a of
                     Inl e \<Rightarrow> Some (s, Inl e)
                   | Inr reply \<Rightarrow>
                       (case mux_sendPacket (mx s) reply of
                          Inl e \<Rightarrow> Some (s, Inl e)
                        | Inr es \<Rightarrow> Some (s\<lparr>tr := tr s @ es\<rparr>, Inr ())))
              | Inl GarbageDataError \<Rightarrow> Some (s\<lparr>tr := tr s @ [LogMessage]\<rparr>, Inr ())
              | Inl (ChecksumMismatchError expected received) \<Rightarrow>
                  Some (s\<lparr>tr := tr s @ [LogMessage, LogMessage, LogMessage]\<rparr>, Inr ())
              | Inl e \<Rightarrow> Some (s, Inl e)
              | Inr u \<Rightarrow> mux_packetReceived ev pkt s)))"


text \<open>
  \<^verbatim>\<open>_finalCleanup\<close>, \<^verbatim>\<open>stopProtocol\<close> and \<^verbatim>\<open>cleanupAndClose\<close>.  The loop runs over a copy
  of the values of the dictionary; the keys of that copy stand for the objects here.
\<close>

fun release_all :: "key list \<Rightarrow> mact" where
  "release_all [] s = Some (s, Inr ())"
| "release_all (k # ks) s =
     (case run_conn k releaseConnectionResources s of
        None \<Rightarrow> None
      | Some (s', Inl e) \<Rightarrow> Some (s', Inl e)
      | Some (s', Inr u) \<Rightarrow> release_all ks s')"

definition finalCleanup :: mact where
  "finalCleanup s =
     (case release_all (map fst (connections (mx s))) s of
        None \<Rightarrow> None
      | Some (s', Inl e) \<Rightarrow> Some (s', Inl e)
      | Some (s', Inr u) \<Rightarrow>
          (if connections (mx s') = [] then Some (s', Inr ()) else Some (s', Inl AssertionError)))"

definition stopProtocol :: mact where
  "stopProtocol s = finalCleanup (s\<lparr>mx := (mx s)\<lparr>transportGoneAway := True\<rparr>\<rparr>)"

definition cleanupAndClose :: mact where
  "cleanupAndClose s =
     (case finalCleanup s of
        None \<Rightarrow> None
      | Some (s', Inl e) \<Rightarrow> Some (s', Inl e)
      | Some (s', Inr u) \<Rightarrow>
          (case mux_stop (mx s') of (m, es) \<Rightarrow> Some (s'\<lparr>mx := m, tr := tr s' @ es\<rparr>, Inr ())))"

section \<open>Notions used to state the properties\<close>

text \<open>
  What the SYN block of \<^verbatim>\<open>packetReceived\<close> has assigned when it reaches the code after
  it, and what the acknowledgement block has assigned after its loop: the fully
  acknowledged packets at the front of the queue are gone, their segment lengths are
  added to \<^verbatim>\<open>sendWindowRemaining\<close>, and \<^verbatim>\<open>oldestUnackedSendSeqNum\<close> is the relative
  acknowledgement number of the packet.
\<close>

definition synced :: "packet \<Rightarrow> conn \<Rightarrow> conn" where
  "synced p c =
     (if syn p then
        c\<lparr>connPeerAddressTuple := peerAddressTuple p, setPeerISN := True,
          peerSendISN := seqNum p,
          nextRecvSeqNum := nextRecvSeqNum c + segmentLength p\<rparr>
      else c)"

definition covered :: "packet \<Rightarrow> packet \<Rightarrow> bool" where
  "covered p q = (relativeSeq q + segmentLength q \<le> relativeAck p)"

definition acked :: "packet \<Rightarrow> conn \<Rightarrow> conn" where
  "acked p c =
     c\<lparr>retransmissionQueue := dropWhile (covered p) (retransmissionQueue c),
       sendWindowRemaining := sendWindowRemaining c +
          sum_list (map segmentLength (takeWhile (covered p) (retransmissionQueue c))),
       oldestUnackedSendSeqNum := relativeAck p\<rparr>"

text \<open>
  The packet gets as far as the acknowledgement block of \<^verbatim>\<open>packetReceived\<close>: it is no STB
  advisory, the connection is not paused, and a SYN carries no data, passes the assertions
  of the SYN block and is the first SYN of the connection.
\<close>

definition reaches_ack :: "conn \<Rightarrow> packet \<Rightarrow> bool" where
  "reaches_ack c p =
     (\<not> stb p \<and> \<not> paused c \<and>
      (if syn p then
         dlen p = 0 \<and> segmentLength p = 1 \<and> \<not> setPeerISN c \<and>
         (if connPeerAddressTuple c = None then wasEverListen c
          else connPeerAddressTuple c = peerAddressTuple p)
       else True))"

text \<open>
  The calls that reach a connection: a packet from the multiplexer, the calls of the
  application, the callbacks of the timers, the two inputs that the multiplexer feeds to
  the machine of a new connection, and \<^verbatim>\<open>releaseConnectionResources\<close> from the
  multiplexer's cleanup.  A connection state is reachable when a sequence of such calls
  leads to it from a new connection, whatever the multiplexer and the environment are at
  each call, and whether the call returns or raises.
\<close>

datatype conn_event =
    Ev_packetReceived packet
  | Ev_write bytes
  | Ev_writeSequence "bytes list"
  | Ev_loseConnection
  | Ev_registerProducer bool
  | Ev_unregisterProducer
  | Ev_pauseProducing
  | Ev_resumeProducing
  | Ev_reallyWrite
  | Ev_reallyRetransmit
  | Ev_originateAck
  | Ev_do2mslTimeout
  | Ev_appCloseNow
  | Ev_appActiveOpen
  | Ev_appPassiveOpen
  | Ev_releaseConnectionResources

fun conn_step :: "env \<Rightarrow> conn_event \<Rightarrow> act" where
  "conn_step ev (Ev_packetReceived p) = packetReceived ev p"
| "conn_step ev (Ev_write bs) = write_bytes bs"
| "conn_step ev (Ev_writeSequence sq) = writeSequence sq"
| "conn_step ev Ev_loseConnection = loseConnection (machine_call ev)"
| "conn_step ev (Ev_registerProducer streaming) = registerProducer streaming"
| "conn_step ev Ev_unregisterProducer = unregisterProducer ev"
| "conn_step ev Ev_pauseProducing = pauseProducing"
| "conn_step ev Ev_resumeProducing = resumeProducing"
| "conn_step ev Ev_reallyWrite = reallyWrite"
| "conn_step ev Ev_reallyRetransmit = reallyRetransmit ev"
| "conn_step ev Ev_originateAck = originateAck"
| "conn_step ev Ev_do2mslTimeout = do2mslTimeout ev"
| "conn_step ev Ev_appCloseNow = appCloseNow ev"
| "conn_step ev Ev_appActiveOpen = machine_call ev ''appActiveOpen''"
| "conn_step ev Ev_appPassiveOpen = machine_call ev ''appPassiveOpen''"
| "conn_step ev Ev_releaseConnectionResources = releaseConnectionResources"

inductive reachable_conn :: "conn \<Rightarrow> bool" where
  fresh: "reachable_conn (PTCPConnection host peer peerAddr)"
| event: "reachable_conn c \<Longrightarrow>
          conn_step ev e \<lparr>this = c, ptcp = m, trace = t\<rparr> = Some (w', r) \<Longrightarrow>
          reachable_conn (this w')"

text \<open>An action keeps a property of the connection: it holds afterwards when it held before.\<close>

definition keeps :: "(conn \<Rightarrow> bool) \<Rightarrow> act \<Rightarrow> bool" where
  "keeps P a = (\<forall>w w' r. P (this w) \<longrightarrow> a w = Some (w', r) \<longrightarrow> P (this w'))"

definition una_le_nxt :: "conn \<Rightarrow> bool" where
  "una_le_nxt c = (oldestUnackedSendSeqNum c \<le> nextSendSeqNum c)"

section \<open>Example states\<close>

text \<open>
  A client after \<^verbatim>\<open>connect\<close>: its machine is in \<^verbatim>\<open>synSent\<close>, its SYN is on the
  retransmission queue and the retransmit timer is armed.  The peer's answer, SYN and ACK
  with acknowledgement number 1, as \<^verbatim>\<open>decode\<close> builds it.  A pure ACK with the same
  acknowledgement number.
\<close>

definition example_addr :: addr where
  "example_addr = (''10.0.0.2'', 4000)"

definition example_env :: env where
  "example_env = \<lparr>buildProtocolRaises = False, dataReceivedRaises = False\<rparr>"

definition client_syn :: packet where
  "client_syn = create 8 1 0 0 [] 489 True False False False False (Some example_addr)"

definition client_synSent :: conn where
  "client_synSent =
     (PTCPConnection 8 1 (Some example_addr))
       \<lparr>retransmissionQueue := [client_syn], nextSendSeqNum := 1, machine := S_synSent,
        retransmitter := True\<rparr>"

definition synAck_packet :: packet where
  "synAck_packet = PTCPPacket 1 8 0 1 default_window 3 0 0 [] (Some example_addr)"

definition ack_packet :: packet where
  "ack_packet = PTCPPacket 1 8 1 1 default_window 2 0 0 [] (Some example_addr)"

definition example_world :: "conn \<Rightarrow> world" where
  "example_world c = \<lparr>this = c, ptcp = mx (startProtocol False), trace = []\<rparr>"

text \<open>
  The walk of \<^verbatim>\<open>_reallyRetransmit\<close> over the queue: a packet stays \<open>alive\<close> when its
  counter is not zero after the decrement; an alive packet is \<open>refreshed\<close> (its
  acknowledgement number becomes \<^verbatim>\<open>currentAckNum()\<close>) and passed to \<^verbatim>\<open>sendPacket\<close>;
  the first packet that is not alive is \<open>expired\<close>.  \<open>sendable\<close> says that
  \<^verbatim>\<open>PTCP.sendPacket\<close> returns for a packet, and \<open>writes\<close> is what it then writes to the
  transport (nothing when the transport has gone away).  \<open>walked\<close> is the state after the
  walk.
\<close>

definition alive :: "packet \<Rightarrow> bool" where
  "alive p = (retransmitCount p - 1 \<noteq> 0)"

definition refreshed :: "conn \<Rightarrow> packet \<Rightarrow> packet" where
  "refreshed c p = p\<lparr>retransmitCount := retransmitCount p - 1, ackNum := currentAckNum c\<rparr>"

definition expired :: "packet \<Rightarrow> packet" where
  "expired p = p\<lparr>retransmitCount := retransmitCount p - 1\<rparr>"

definition sendable :: "mux \<Rightarrow> packet \<Rightarrow> bool" where
  "sendable m p = (case mux_sendPacket m p of Inl e \<Rightarrow> False | Inr es \<Rightarrow> True)"

definition writes :: "mux \<Rightarrow> packet \<Rightarrow> effect list" where
  "writes m p = (case mux_sendPacket m p of Inl e \<Rightarrow> [] | Inr es \<Rightarrow> es)"

definition expire_head :: "packet list \<Rightarrow> packet list" where
  "expire_head ps = (case ps of [] \<Rightarrow> [] | z # rest \<Rightarrow> expired z # rest)"

definition walked :: "world \<Rightarrow> world" where
  "walked w =
     (let c = this w; q = retransmissionQueue c
      in w\<lparr>this := c\<lparr>retransmitter := False,
                      retransmissionQueue :=
                        map (refreshed c) (takeWhile alive q) @ expire_head (dropWhile alive q)\<rparr>,
           trace := trace w @ concat (map (\<lambda>p. writes (ptcp w) (refreshed c p)) (takeWhile alive q))\<rparr>)"

text \<open>
  An action settles a property of the connection: from a state with the property it
  returns or raises, and the property holds in the state it leaves.
\<close>

definition settles :: "(conn \<Rightarrow> bool) \<Rightarrow> act \<Rightarrow> bool" where
  "settles P a = (\<forall>w. P (this w) \<longrightarrow> (\<exists>w' r. a w = Some (w', r) \<and> P (this w')))"


text \<open>The example client when the transport has gone away.\<close>

definition gone_world :: world where
  "gone_world =
     (example_world client_synSent)
       \<lparr>ptcp := (mx (startProtocol False))\<lparr>transportGoneAway := True\<rparr>\<rparr>"

text \<open>
  A multiplexer whose transport has gone away, and a datagram that was cut short: its
  header announces 5 bytes of data and 2 bytes follow.
\<close>

definition gone_sys :: sys where
  "gone_sys = (startProtocol False)\<lparr>mx := (mx (startProtocol False))\<lparr>transportGoneAway := True\<rparr>\<rparr>"

definition trunc_dg :: bytes where
  "trunc_dg = [0, 8, 0, 1, 0, 0, 0, 0, 0, 0, 0, 0, 0, 0, 0, 0, 0, 0, 0, 0, 0, 0, 5, 1, 2]"





section \<open>Properties of the codec\<close>

lemma fixedSize_eq: "fixedSize = 23"
  by (simp add: fixedSize_def calcsize_def packetFormat_def)

lemma length_be_bytes: "length (be_bytes n v) = n"
  by (induction n arbitrary: v) simp_all

lemma from_be_snoc: "from_be (bs @ [b]) = from_be bs * 256 + uint b"
  by (simp add: from_be_def)

lemma from_be_be_bytes: "from_be (be_bytes n v) = v mod 256 ^ n"
proof (induction n arbitrary: v)
  case 0
  show ?case by (simp add: from_be_def)
next
  case (Suc n)
  have "uint (word_of_int v :: byte) = v mod 256"
    by (simp add: uint_word_of_int)
  then have "from_be (be_bytes (Suc n) v) = 256 * (v div 256 mod 256 ^ n) + v mod 256"
    by (simp add: from_be_snoc Suc.IH)
  also have "\<dots> = v mod (256 * 256 ^ n)"
    by (rule zmod_zmult2_eq [symmetric]) simp
  finally show ?case by simp
qed

lemma signed_wrap:
  fixes v :: int
  assumes "- 2147483648 \<le> v" "v < 2147483648"
  shows "(if 2147483648 \<le> v mod 4294967296 then v mod 4294967296 - 4294967296
          else v mod 4294967296) = v"
proof (cases "v < 0")
  case True
  have "(v + 4294967296) mod 4294967296 = v + 4294967296"
    using True assms by (intro mod_pos_pos_trivial) simp_all
  then have "v mod 4294967296 = v + 4294967296" by simp
  with True assms show ?thesis by simp
next
  case False
  with assms have "v mod 4294967296 = v" by simp
  with False assms show ?thesis by simp
qed

lemma pack_one_unpack:
  assumes "pack_one f v = Inr b"
  shows "length b = fmt_size f \<and> unpack_one f b = v"
proof -
  from assms have r: "fmt_min f \<le> v" "v \<le> fmt_max f" and b: "b = be_bytes (fmt_size f) v"
    by (auto simp: pack_one_def split: if_splits)
  show ?thesis
  proof (cases f)
    case Fmt_l
    with r have "- 2147483648 \<le> v" "v < 2147483648" by simp_all
    from signed_wrap [OF this] have "unpack_one Fmt_l (be_bytes 4 v) = v"
      by (simp add: unpack_one_def from_be_be_bytes Let_def split: if_splits)
    then show ?thesis using Fmt_l b by (simp add: length_be_bytes)
  qed (use r b in \<open>auto simp: unpack_one_def from_be_be_bytes length_be_bytes simp del: One_nat_def\<close>)
qed

lemma struct_pack_unpack:
  "struct_pack fs vs = Inr bs \<Longrightarrow>
     length bs = calcsize fs \<and> unpack_fields fs (bs @ rest) = vs"
proof (induction fs vs arbitrary: bs rule: struct_pack.induct)
  case 1
  then show ?case by (simp add: calcsize_def)
next
  case (2 f fs v vs)
  from "2.prems" obtain b bs' where b: "pack_one f v = Inr b"
    and bs': "struct_pack fs vs = Inr bs'" and bs: "bs = b @ bs'"
    by (auto split: sum.splits)
  from pack_one_unpack [OF b] have lb: "length b = fmt_size f" and ub: "unpack_one f b = v"
    by simp_all
  from "2.IH" [OF b bs'] have "length bs' = calcsize fs" "unpack_fields fs (bs' @ rest) = vs"
    by simp_all
  with lb ub bs show ?case by (simp add: calcsize_def)
qed simp_all

lemma crc32_range: "- (2 ^ 31) \<le> crc32 s \<and> crc32 s < 2 ^ 31"
  using sint_ge [of "foldl crc_byte 0xFFFFFFFF s XOR 0xFFFFFFFF"]
        sint_lt [of "foldl crc_byte 0xFFFFFFFF s XOR 0xFFFFFFFF"]
  by (simp add: crc32_def)

lemma crc32_Nil: "crc32 [] = 0"
  by (simp add: crc32_def)

lemma encode_fits:
  assumes "fields_fit p"
  shows "\<exists>hdr. struct_pack packetFormat
            [sourcePseudoPort p, destPseudoPort p, seqNum p, ackNum p, window p,
             flags p, crc32 (data p), int (length (data p))] = Inr hdr
          \<and> encode p = Inr (hdr @ data p)"
  using assms crc32_range [of "data p"]
  by (simp add: fields_fit_def encode_def packetFormat_def pack_one_def computeChecksum_def
      Let_def)

lemma encode_not_fits:
  assumes "\<not> fields_fit p"
  shows "encode p = Inl StructError"
  using assms crc32_range [of "data p"]
  by (auto simp: fields_fit_def encode_def packetFormat_def pack_one_def computeChecksum_def
      Let_def split: sum.splits)

lemma decode_header:
  assumes "struct_pack packetFormat [src, dst, sq, ak, win, fl, ck, dl] = Inr hdr"
  shows "decode (hdr @ dat) a = Inr (PTCPPacket src dst sq ak win fl ck dl dat a)"
proof -
  from struct_pack_unpack [OF assms, of "[]"]
  have len: "length hdr = fixedSize"
    and un: "unpack_fields packetFormat hdr = [src, dst, sq, ak, win, fl, ck, dl]"
    by (simp_all add: fixedSize_def)
  then show ?thesis
    by (simp add: decode_def struct_unpack_def fixedSize_def [symmetric])
qed

lemma decode_encode_fits:
  assumes "fields_fit p"
  shows "\<exists>bs. encode p = Inr bs \<and> length bs = 23 + length (data p) \<and>
      decode bs a = Inr (PTCPPacket (sourcePseudoPort p) (destPseudoPort p) (seqNum p) (ackNum p)
          (window p) (flags p) (crc32 (data p)) (int (length (data p))) (data p) a)"
proof -
  from encode_fits [OF assms] obtain hdr where
    h: "struct_pack packetFormat
            [sourcePseudoPort p, destPseudoPort p, seqNum p, ackNum p, window p,
             flags p, crc32 (data p), int (length (data p))] = Inr hdr"
    and e: "encode p = Inr (hdr @ data p)" by blast
  from struct_pack_unpack [OF h, of "[]"] have "length hdr = 23"
    by (simp add: fixedSize_def [symmetric] fixedSize_eq)
  with e decode_header [OF h] show ?thesis by simp
qed

lemma decode_encode_eq:
  assumes "fields_fit p"
  shows "decode_encode p a =
      Inr (PTCPPacket (sourcePseudoPort p) (destPseudoPort p) (seqNum p) (ackNum p)
          (window p) (flags p) (crc32 (data p)) (int (length (data p))) (data p) a)"
  using decode_encode_fits [OF assms, of a] by (auto simp: decode_encode_def)

subsection \<open>Round trip through the wire format\<close>

text \<open>
  Claim C4, as amended.  The claim as written ("for every packet whose dlen equals
  len(data), decode(encode(P)) equals P in every field but the peer address") fails:
  \<^verbatim>\<open>encode\<close> writes the CRC-32 of the data and not the stored checksum, and the attributes
  that are not on the wire come back as the constructor sets them.  What holds: for every
  packet whose header fields are within the ranges of the wire format, whose dlen is the
  length of its data and whose checksum is the CRC-32 of its data, \<^verbatim>\<open>encode\<close> returns
  bytes that \<^verbatim>\<open>decode\<close> turns into the same packet, with the given peer address, sequence
  offsets and laps 0, retransmit count 50 and no destination attribute.
\<close>

theorem decode_encode_roundtrip:
  assumes "fields_fit P" and "dlen P = int (length (data P))" and "checksum P = crc32 (data P)"
  shows "decode_encode P a =
     Inr (P\<lparr>peerAddressTuple := a, seqOffset := 0, ackOffset := 0, seqLaps := 0,
            ackLaps := 0, retransmitCount := 50, destination := None\<rparr>)"
  using assms by (simp add: decode_encode_eq PTCPPacket_def)

theorem decode_encode_roundtrip_witness:
  "decode_encode
     (create 7 1 100 200 [1, 2, 3] default_window False True False False False None)
     (Some (''10.0.0.1'', 4000)) =
   Inr ((create 7 1 100 200 [1, 2, 3] default_window False True False False False None)
         \<lparr>peerAddressTuple := Some (''10.0.0.1'', 4000), seqOffset := 0, ackOffset := 0,
          seqLaps := 0, ackLaps := 0, retransmitCount := 50, destination := None\<rparr>)"
  by (rule decode_encode_roundtrip)
     (simp_all add: fields_fit_def create_def PTCPPacket_def flag_set_def default_window_def
       Let_def SYN_flag_def ACK_flag_def FIN_flag_def RST_flag_def STB_flag_def
       computeChecksum_def)

text \<open>
  The packet \<^verbatim>\<open>PTCPPacket(0, 0, 0, 0, 0, 0, 1, 0, '')\<close> has dlen = len(data) = 0 and a stored
  checksum of 1; it comes back with checksum 0.  The same packet with checksum 0 and a
  retransmit count of 49 comes back with a retransmit count of 50.
\<close>

theorem decode_encode_roundtrip_counterexample:
  "dlen (PTCPPacket 0 0 0 0 0 0 1 0 [] None) =
     int (length (data (PTCPPacket 0 0 0 0 0 0 1 0 [] None)))
   \<and> decode_encode (PTCPPacket 0 0 0 0 0 0 1 0 [] None) None =
       Inr (PTCPPacket 0 0 0 0 0 0 0 0 [] None)
   \<and> checksum (PTCPPacket 0 0 0 0 0 0 1 0 [] None) = 1
   \<and> checksum (PTCPPacket 0 0 0 0 0 0 0 0 [] None) = 0
   \<and> decode_encode ((PTCPPacket 0 0 0 0 0 0 0 0 [] None)\<lparr>retransmitCount := 49\<rparr>) None =
       Inr (PTCPPacket 0 0 0 0 0 0 0 0 [] None)
   \<and> retransmitCount (PTCPPacket 0 0 0 0 0 0 0 0 [] None) = 50"
proof -
  have "fields_fit (PTCPPacket 0 0 0 0 0 0 1 0 [] None)"
    by (simp add: fields_fit_def PTCPPacket_def)
  from decode_encode_eq [OF this, of None]
  have 1: "decode_encode (PTCPPacket 0 0 0 0 0 0 1 0 [] None) None =
       Inr (PTCPPacket 0 0 0 0 0 0 0 0 [] None)"
    by (simp add: PTCPPacket_def crc32_Nil)
  have "fields_fit ((PTCPPacket 0 0 0 0 0 0 0 0 [] None)\<lparr>retransmitCount := 49\<rparr>)"
    by (simp add: fields_fit_def PTCPPacket_def)
  from decode_encode_eq [OF this, of None]
  have 2: "decode_encode ((PTCPPacket 0 0 0 0 0 0 0 0 [] None)\<lparr>retransmitCount := 49\<rparr>) None =
       Inr (PTCPPacket 0 0 0 0 0 0 0 0 [] None)"
    by (simp add: PTCPPacket_def crc32_Nil)
  from 1 2 show ?thesis by (simp add: PTCPPacket_def)
qed

text \<open>
  Claim C10, as amended.  \<^verbatim>\<open>encode\<close> ignores the stored dlen and checksum and writes the
  length and the CRC-32 of the data.  The claim as written ("for every packet P,
  decode(encode(P), a).verifyChecksum() succeeds") fails where a header field is outside
  the range of its format character: there \<^verbatim>\<open>struct.pack\<close> raises and \<^verbatim>\<open>encode\<close> returns
  nothing.  What holds: for every packet whose header fields are within the ranges of the
  wire format (whatever its stored dlen and checksum) and every peer address, \<^verbatim>\<open>encode\<close>
  returns bytes, \<^verbatim>\<open>decode\<close> returns a packet with dlen = len(data) and checksum =
  CRC-32 of the data, and \<^verbatim>\<open>verifyChecksum\<close> on it returns without raising.
\<close>

theorem encode_verifies:
  assumes "fields_fit P"
  shows "verify_roundtrip P a = Inr () \<and>
     (\<exists>bs q. encode P = Inr bs \<and> decode bs a = Inr q \<and>
        dlen q = int (length (data P)) \<and> checksum q = crc32 (data P) \<and> data q = data P)"
proof -
  from decode_encode_fits [OF assms, of a] obtain bs where
    "encode P = Inr bs" and
    "decode bs a = Inr (PTCPPacket (sourcePseudoPort P) (destPseudoPort P) (seqNum P) (ackNum P)
          (window P) (flags P) (crc32 (data P)) (int (length (data P))) (data P) a)"
    by blast
  then show ?thesis
    by (auto simp: verify_roundtrip_def decode_encode_eq [OF assms] verifyChecksum_def
        PTCPPacket_def computeChecksum_def)
qed

theorem encode_verifies_witness:
  "verify_roundtrip (PTCPPacket 8 1 5 6 493 2 12345 77 [1, 2, 3] None)
     (Some (''10.0.0.1'', 4000)) = Inr ()"
proof -
  have "fields_fit (PTCPPacket 8 1 5 6 493 2 12345 77 [1, 2, 3] None)"
    by (simp add: fields_fit_def PTCPPacket_def)
  from encode_verifies [OF this] show ?thesis by simp
qed

text \<open>
  \<^verbatim>\<open>PTCPPacket(1, 2, 2**32, 0, 0, 0, 0, 0, '')\<close>: the sequence number does not fit
  \<^verbatim>\<open>L\<close>, and \<^verbatim>\<open>encode\<close> raises \<^verbatim>\<open>struct.error\<close>.
\<close>

theorem encode_verifies_counterexample:
  "verify_roundtrip (PTCPPacket 1 2 (2 ^ 32) 0 0 0 0 0 [] None) None = Inl StructError"
proof -
  have "\<not> fields_fit (PTCPPacket 1 2 (2 ^ 32) 0 0 0 0 0 [] None)"
    by (simp add: fields_fit_def PTCPPacket_def)
  from encode_not_fits [OF this] show ?thesis
    by (simp add: verify_roundtrip_def decode_encode_def)
qed

subsection \<open>Fragmentation\<close>

lemma flag_consts: "SYN_flag = 1" "ACK_flag = 2" "FIN_flag = 4" "RST_flag = 8" "STB_flag = 16"
  by (simp_all add: SYN_flag_def ACK_flag_def FIN_flag_def RST_flag_def STB_flag_def)

lemma create_child:
  "create src dst sq ak dat win False ac False False False dest =
     \<lparr> sourcePseudoPort = src, destPseudoPort = dst, seqNum = sq, ackNum = ak,
       window = win, flags = (if ac then 2 else 0), checksum = crc32 dat,
       dlen = int (length dat), data = dat,
       peerAddressTuple = None, seqOffset = 0, ackOffset = 0, seqLaps = 0, ackLaps = 0,
       retransmitCount = 50, destination = Some dest \<rparr>"
  by (simp add: create_def PTCPPacket_def flag_set_def flag_consts computeChecksum_def Let_def)

lemma py_slice_chunk:
  assumes "0 \<le> offt" "0 < m" "offt < int (length dat)"
  shows "py_slice dat offt (offt + m) = take (nat m) (drop (nat offt) dat)"
  using assms by (auto simp: py_slice_def slice_index_def Let_def min_def nat_diff_distrib nat_add_distrib)

lemma fragment_loop_done:
  "int (length (data self)) \<le> offt \<Longrightarrow> fragment_loop self m offt so L = Some (Inr L)"
  by (subst fragment_loop.simps) (simp add: iterchunks_next_def)

lemma fragment_loop_step:
  assumes "offt < int (length (data self))" "destination self = Some dest"
  shows "fragment_loop self m offt so L =
     fragment_loop self m (offt + m)
       (so + int (length (py_slice (data self) offt (offt + m))))
       (L @ [child_of self so (py_slice (data self) offt (offt + m)) dest])"
  using assms by (subst fragment_loop.simps) (simp add: iterchunks_next_def)

lemma fragment_loop_spec:
  assumes "0 < m" "destination self = Some dest" "0 \<le> offt"
  shows "\<exists>K. fragment_loop self m offt offt L = Some (Inr (L @ K)) \<and>
    concat (map data K) = drop (nat offt) (data self) \<and>
    (K = [] \<longleftrightarrow> int (length (data self)) \<le> offt) \<and>
    (\<forall>i<length K. data (K ! i) \<noteq> [] \<and> int (length (data (K ! i))) \<le> m \<and>
        K ! i = child_of self (offt + int (length (concat (map data (take i K)))))
                  (data (K ! i)) dest)"
  using assms(3)
proof (induction "length (data self) - nat offt" arbitrary: offt L rule: less_induct)
  case less
  let ?n = "length (data self)"
  show ?case
  proof (cases "int ?n \<le> offt")
    case True
    then show ?thesis
      by (intro exI [of _ "[]"]) (simp add: fragment_loop_done)
  next
    case False
    then have lt: "offt < int ?n" by simp
    let ?chunk = "take (nat m) (drop (nat offt) (data self))"
    let ?c = "child_of self offt ?chunk dest"
    have sl: "py_slice (data self) offt (offt + m) = ?chunk"
      using less.prems assms(1) lt by (rule py_slice_chunk)
    have step: "fragment_loop self m offt offt L =
        fragment_loop self m (offt + m) (offt + int (length ?chunk)) (L @ [?c])"
      using fragment_loop_step [OF lt assms(2), of m offt L] by (simp add: sl)
    have ne: "?chunk \<noteq> []" using lt assms(1) less.prems by auto
    have le: "int (length ?chunk) \<le> m" using assms(1) by simp
    have dc: "data ?c = ?chunk" by (simp add: child_of_def create_child)
    show ?thesis
    proof (cases "offt + m \<le> int ?n")
      case True
      then have full: "int (length ?chunk) = m"
        using assms(1) less.prems by (simp add: min_def) linarith
      have m: "?n - nat (offt + m) < ?n - nat offt"
        using lt assms(1) less.prems by linarith
      have "0 \<le> offt + m" using assms(1) less.prems by simp
      from less.hyps [OF m this, of "L @ [?c]"] obtain K where
        K1: "fragment_loop self m (offt + m) (offt + m) (L @ [?c]) = Some (Inr ((L @ [?c]) @ K))"
        and K2: "concat (map data K) = drop (nat (offt + m)) (data self)"
        and K4: "\<forall>i<length K. data (K ! i) \<noteq> [] \<and> int (length (data (K ! i))) \<le> m \<and>
            K ! i = child_of self (offt + m + int (length (concat (map data (take i K)))))
                  (data (K ! i)) dest"
        by blast
      have c2: "concat (map data (?c # K)) = drop (nat offt) (data self)"
      proof -
        have "nat (offt + m) = nat m + nat offt"
          using assms(1) less.prems by (simp add: nat_add_distrib)
        then have "drop (nat (offt + m)) (data self) = drop (nat m) (drop (nat offt) (data self))"
          by simp
        with K2 dc append_take_drop_id [of "nat m" "drop (nat offt) (data self)"]
        show ?thesis by simp
      qed
      have c4: "data ((?c # K) ! i) \<noteq> [] \<and> int (length (data ((?c # K) ! i))) \<le> m \<and>
            (?c # K) ! i = child_of self (offt + int (length (concat (map data (take i (?c # K))))))
                  (data ((?c # K) ! i)) dest" if "i < length (?c # K)" for i
      proof (cases i)
        case 0
        then show ?thesis using ne le dc by simp
      next
        case (Suc j)
        with that have "j < length K" by simp
        with K4 have "data (K ! j) \<noteq> [] \<and> int (length (data (K ! j))) \<le> m \<and>
            K ! j = child_of self (offt + m + int (length (concat (map data (take j K)))))
                  (data (K ! j)) dest" by blast
        moreover have "offt + int (length (concat (map data (take i (?c # K))))) =
           offt + m + int (length (concat (map data (take j K))))"
          using Suc dc full by simp
        ultimately show ?thesis using Suc by (simp add: add.assoc)
      qed
      show ?thesis
        apply (rule exI [of _ "?c # K"])
        using step full K1 c2 c4 lt by simp
    next
      case False
      then have fin_call: "fragment_loop self m (offt + m) (offt + int (length ?chunk)) (L @ [?c])
          = Some (Inr (L @ [?c]))"
        by (intro fragment_loop_done) simp
      have all: "drop (nat offt) (data self) = ?chunk"
      proof (rule take_all [symmetric])
        show "length (drop (nat offt) (data self)) \<le> nat m"
          using False assms(1) less.prems by simp
      qed
      show ?thesis
        apply (rule exI [of _ "[?c]"])
        using step fin_call dc ne le lt all by simp
    qed
  qed
qed


lemma fragment_small: "dlen P < m \<Longrightarrow> fragment P m = Some (Inr [P])"
  by (simp add: fragment_def)

lemma child_fields:
  "seqNum (child_of self so chunk dest) = seqNum self + so"
  "dlen (child_of self so chunk dest) = int (length chunk)"
  "data (child_of self so chunk dest) = chunk"
  "ack (child_of self so chunk dest) = ack self"
  "fin (child_of self so chunk dest) = False"
  by (simp_all add: child_of_def create_child ack_def fin_def flag_get_def flag_consts)

lemma or_and_int: "(x OR g) AND f = (x AND f) OR (g AND f)" for x :: int
  by (rule bit.conj_disj_distrib2)

lemma andnot_and_int: "(x AND NOT g) AND f = x AND (NOT g AND f)" for x :: int
  by (rule and.assoc)

lemma or_self_nonzero: "(x OR g) AND g = g" for x :: int
  by (simp add: or_and_int) (simp add: bit_eq_iff bit_simps, blast)

lemma set_fin_fields:
  "seqNum ((flag_set FIN_flag True c)\<lparr>checksum := k\<rparr>) = seqNum c"
  "dlen ((flag_set FIN_flag True c)\<lparr>checksum := k\<rparr>) = dlen c"
  "data ((flag_set FIN_flag True c)\<lparr>checksum := k\<rparr>) = data c"
  "fin ((flag_set FIN_flag True c)\<lparr>checksum := k\<rparr>) = True"
  "ack ((flag_set FIN_flag True c)\<lparr>checksum := k\<rparr>) = ack c"
  by (simp_all add: flag_set_def fin_def ack_def flag_get_def flag_consts or_self_nonzero or_and_int)


text \<open>
  Claim C6, as amended.  The branch of the claim for dlen < mtu holds as written, for
  every packet: \<^verbatim>\<open>fragment\<close> returns \<open>[P]\<close> (the bare FIN of \<^verbatim>\<open>sendFin\<close> and every decoded
  packet below the MTU are such packets).  The other branch fails for a packet with data
  and no \<^verbatim>\<open>destination\<close> attribute (one built by the constructor or by \<^verbatim>\<open>decode\<close>),
  where \<^verbatim>\<open>fragment\<close> raises \<^verbatim>\<open>AttributeError\<close>, and for a packet with FIN and no data,
  where no child is created and \<^verbatim>\<open>last\<close> is unbound.  What holds: for every non-SYN
  packet P and every mtu > 0, if dlen < mtu, \<^verbatim>\<open>fragment\<close> returns \<open>[P]\<close>; otherwise, when
  P has the \<^verbatim>\<open>destination\<close> attribute if it has data, and has data if FIN is set (so
  whenever dlen = len(data) and P was built by \<^verbatim>\<open>create\<close>), it returns children whose
  payloads concatenate to P's data, whose sequence numbers are P's plus the length of
  the preceding payloads, each with dlen = len(data) \<le> mtu and P's ack flag, and the
  final child, and only it, has FIN iff P has FIN.
\<close>

theorem fragment_children:
  assumes "0 < m" and "\<not> syn P"
    and "m \<le> dlen P \<longrightarrow>
           (data P \<noteq> [] \<longrightarrow> destination P \<noteq> None) \<and> (fin P \<longrightarrow> data P \<noteq> [])"
  shows "(dlen P < m \<longrightarrow> fragment P m = Some (Inr [P])) \<and>
    (m \<le> dlen P \<longrightarrow>
      (\<exists>L. fragment P m = Some (Inr L) \<and>
         concat (map data L) = data P \<and>
         (fin P \<longrightarrow> L \<noteq> []) \<and>
         (\<forall>i<length L.
            seqNum (L ! i) = seqNum P + int (length (concat (map data (take i L)))) \<and>
            dlen (L ! i) = int (length (data (L ! i))) \<and>
            dlen (L ! i) \<le> m \<and>
            ack (L ! i) = ack P \<and>
            (fin (L ! i) \<longleftrightarrow> fin P \<and> i = length L - 1))))"
proof (intro conjI impI)
  assume "dlen P < m"
  then show "fragment P m = Some (Inr [P])" by (rule fragment_small)
next
  assume big: "m \<le> dlen P"
  with assms(3) have hd: "data P \<noteq> [] \<longrightarrow> destination P \<noteq> None"
    and hf: "fin P \<longrightarrow> data P \<noteq> []"
    by blast+
  show "\<exists>L. fragment P m = Some (Inr L) \<and>
         concat (map data L) = data P \<and>
         (fin P \<longrightarrow> L \<noteq> []) \<and>
         (\<forall>i<length L.
            seqNum (L ! i) = seqNum P + int (length (concat (map data (take i L)))) \<and>
            dlen (L ! i) = int (length (data (L ! i))) \<and>
            dlen (L ! i) \<le> m \<and>
            ack (L ! i) = ack P \<and>
            (fin (L ! i) \<longleftrightarrow> fin P \<and> i = length L - 1))"
  proof (cases "data P = []")
    case True
    with hf have nf: "\<not> fin P" by blast
    have "fragment_loop P m 0 0 [] = Some (Inr [])"
      by (rule fragment_loop_done) (simp add: True)
    with big assms(2) nf have "fragment P m = Some (Inr [])"
      by (simp add: fragment_def)
    with True nf show ?thesis by simp
  next
    case nonempty: False
    with hd obtain dest where dest: "destination P = Some dest" by blast
    from fragment_loop_spec [OF assms(1) dest, of 0 "[]"] obtain K where
      K1: "fragment_loop P m 0 0 [] = Some (Inr K)"
      and K2: "concat (map data K) = data P"
      and K3: "K = [] \<longleftrightarrow> data P = []"
      and K4: "\<forall>i<length K. data (K ! i) \<noteq> [] \<and> int (length (data (K ! i))) \<le> m \<and>
          K ! i = child_of P (int (length (concat (map data (take i K))))) (data (K ! i)) dest"
      by auto
    have kid: "seqNum (K ! i) = seqNum P + int (length (concat (map data (take i K)))) \<and>
              dlen (K ! i) = int (length (data (K ! i))) \<and>
              dlen (K ! i) \<le> m \<and> ack (K ! i) = ack P \<and> \<not> fin (K ! i)" if "i < length K" for i
    proof -
      from K4 that have a: "int (length (data (K ! i))) \<le> m"
        and b: "K ! i = child_of P (int (length (concat (map data (take i K))))) (data (K ! i)) dest"
        by blast+
      show ?thesis
        by (subst b, subst (2) b, subst (3) b, subst (5) b, subst (6) b) (simp add: child_fields a)
    qed
    show ?thesis
    proof (cases "fin P")
      case False
      with big assms(2) K1 have frag: "fragment P m = Some (Inr K)"
        by (simp add: fragment_def)
      have "seqNum (K ! i) = seqNum P + int (length (concat (map data (take i K)))) \<and>
              dlen (K ! i) = int (length (data (K ! i))) \<and>
              dlen (K ! i) \<le> m \<and>
              ack (K ! i) = ack P \<and>
              (fin (K ! i) \<longleftrightarrow> fin P \<and> i = length K - 1)" if "i < length K" for i
        using kid [OF that] False by blast
      with frag K2 False show ?thesis by blast
    next
      case True
      with hf K3 have ne: "K \<noteq> []" by simp
      let ?l = "(flag_set FIN_flag True (last K))\<lparr>checksum := computeChecksum (flag_set FIN_flag True (last K))\<rparr>"
      let ?L = "butlast K @ [?l]"
      have frag: "fragment P m = Some (Inr ?L)"
        using big assms(2) K1 True ne by (simp add: fragment_def Let_def)
      have len: "length ?L = length K" using ne by simp
      have dmap: "map data ?L = map data K"
      proof -
        have "map data K = map data (butlast K @ [last K])" using ne by simp
        also have "\<dots> = map data ?L" by (simp add: set_fin_fields)
        finally show ?thesis by simp
      qed
      have nth: "?L ! i = (if i = length K - 1 then ?l else K ! i)" if "i < length K" for i
        using that ne by (auto simp: nth_append nth_butlast)
      have lastK: "last K = K ! (length K - 1)" using ne by (simp add: last_conv_nth)
      have props: "seqNum (?L ! i) = seqNum P + int (length (concat (map data (take i ?L)))) \<and>
              dlen (?L ! i) = int (length (data (?L ! i))) \<and>
              dlen (?L ! i) \<le> m \<and>
              ack (?L ! i) = ack P \<and>
              (fin (?L ! i) \<longleftrightarrow> fin P \<and> i = length ?L - 1)" if "i < length ?L" for i
      proof -
        from that len have i: "i < length K" by simp
        have "map data (take i ?L) = take i (map data ?L)" by (rule take_map [symmetric])
        also have "\<dots> = take i (map data K)" by (simp only: dmap)
        also have "\<dots> = map data (take i K)" by (rule take_map)
        finally have tk: "map data (take i ?L) = map data (take i K)" .
        from ne have l: "length K - 1 < length K" by (cases K) simp_all
        show ?thesis
        proof (cases "i = length K - 1")
          case True
          with kid [OF l] show ?thesis
            using nth [OF i] tk lastK \<open>fin P\<close> len by (simp add: set_fin_fields)
        next
          case False
          with kid [OF i] show ?thesis
            using nth [OF i] tk \<open>fin P\<close> len by simp
        qed
      qed
      have "concat (map data ?L) = data P" using dmap K2 by simp
      with frag props show ?thesis by blast
    qed
  qed
qed

theorem fragment_children_witness:
  "(\<exists>L. fragment (create 1 2 10 20 [1, 2, 3, 4, 5] 100 False True True False False None) 2
         = Some (Inr L) \<and>
       concat (map data L) = [1, 2, 3, 4, 5] \<and> L \<noteq> []) \<and>
   fragment (PTCPPacket 1 2 10 20 100 4 0 0 [] None) 489
     = Some (Inr [PTCPPacket 1 2 10 20 100 4 0 0 [] None])"
proof -
  let ?P = "create 1 2 10 20 [1, 2, 3, 4, 5] 100 False True True False False None"
  let ?Q = "PTCPPacket 1 2 10 20 100 4 0 0 [] None"
  have f: "flags ?P = 6" "data ?P = [1, 2, 3, 4, 5]" "dlen ?P = 5" "destination ?P = Some None"
    by (simp_all add: create_def PTCPPacket_def flag_set_def flag_consts Let_def)
  have h: "(0::int) < 2" "\<not> syn ?P"
    "2 \<le> dlen ?P \<longrightarrow>
       (data ?P \<noteq> [] \<longrightarrow> destination ?P \<noteq> None) \<and> (fin ?P \<longrightarrow> data ?P \<noteq> [])"
    by (simp_all add: f syn_def fin_def flag_get_def flag_consts)
  have g: "flags ?Q = 4" "dlen ?Q = 0"
    by (simp_all add: PTCPPacket_def)
  have k: "(0::int) < 489" "\<not> syn ?Q"
    "489 \<le> dlen ?Q \<longrightarrow>
       (data ?Q \<noteq> [] \<longrightarrow> destination ?Q \<noteq> None) \<and> (fin ?Q \<longrightarrow> data ?Q \<noteq> [])"
    by (simp_all add: g syn_def flag_get_def flag_consts)
  from fragment_children [OF h] f
  have 1: "\<exists>L. fragment ?P 2 = Some (Inr L) \<and> concat (map data L) = [1, 2, 3, 4, 5] \<and> L \<noteq> []"
    by auto
  from fragment_children [OF k] g have 2: "fragment ?Q 489 = Some (Inr [?Q])"
    by simp
  from 1 2 show ?thesis by blast
qed

text \<open>
  Claim C6, as the specification states it, fails.
  \<^verbatim>\<open>PTCPPacket(1, 2, 10, 20, 100, 0, 0, 3, 'abc')\<close>, as \<^verbatim>\<open>decode\<close> builds it (its dlen is
  the length of its data), has no SYN and no \<^verbatim>\<open>destination\<close>; \<^verbatim>\<open>fragment(2)\<close> raises
  \<^verbatim>\<open>AttributeError\<close>.
  \<^verbatim>\<open>PTCPPacket(1, 2, 10, 20, 100, 4, 0, 1, '')\<close> with a \<^verbatim>\<open>destination\<close> of \<^verbatim>\<open>None\<close>
  has FIN and no SYN; \<^verbatim>\<open>fragment(1)\<close> raises \<^verbatim>\<open>UnboundLocalError\<close>.
\<close>

theorem fragment_children_counterexample:
  "\<not> syn (PTCPPacket 1 2 10 20 100 0 0 3 [97, 98, 99] None) \<and>
   dlen (PTCPPacket 1 2 10 20 100 0 0 3 [97, 98, 99] None) =
     int (length (data (PTCPPacket 1 2 10 20 100 0 0 3 [97, 98, 99] None))) \<and>
   fragment (PTCPPacket 1 2 10 20 100 0 0 3 [97, 98, 99] None) 2 = Some (Inl AttributeError) \<and>
   \<not> syn ((PTCPPacket 1 2 10 20 100 4 0 1 [] None)\<lparr>destination := Some None\<rparr>) \<and>
   fragment ((PTCPPacket 1 2 10 20 100 4 0 1 [] None)\<lparr>destination := Some None\<rparr>) 1
     = Some (Inl UnboundLocalError)"
proof -
  let ?P = "(PTCPPacket 1 2 10 20 100 4 0 1 [] None)\<lparr>destination := Some None\<rparr>"
  let ?Q = "PTCPPacket 1 2 10 20 100 0 0 3 [97, 98, 99] None"
  have "fragment_loop ?P 1 0 0 [] = Some (Inr [])"
    by (rule fragment_loop_done) (simp add: PTCPPacket_def)
  then have 1: "fragment ?P 1 = Some (Inl UnboundLocalError)"
    by (simp add: fragment_def PTCPPacket_def syn_def fin_def flag_get_def flag_consts)
  have "fragment_loop ?Q 2 0 0 [] = Some (Inl AttributeError)"
    by (subst fragment_loop.simps) (simp add: iterchunks_next_def PTCPPacket_def)
  then have 2: "fragment ?Q 2 = Some (Inl AttributeError)"
    by (simp add: fragment_def PTCPPacket_def syn_def fin_def flag_get_def flag_consts)
  from 1 2 show ?thesis
    by (simp add: PTCPPacket_def syn_def flag_get_def flag_consts)
qed

subsection \<open>The size of the header\<close>

lemma be_bytes_numeral:
  "be_bytes (numeral k) v = be_bytes (pred_numeral k) (v div 256) @ [word_of_int v]"
  by (simp add: numeral_eq_Suc)

lemma header_length:
  assumes "encode P = Inr bs"
  shows "\<exists>hdr. bs = hdr @ data P \<and> length hdr = fixedSize"
proof (cases "fields_fit P")
  case True
  from encode_fits [OF True] obtain hdr where
    h: "struct_pack packetFormat
          [sourcePseudoPort P, destPseudoPort P, seqNum P, ackNum P, window P,
           flags P, crc32 (data P), int (length (data P))] = Inr hdr"
    and e: "encode P = Inr (hdr @ data P)" by blast
  from struct_pack_unpack [OF h, of "[]"] have "length hdr = fixedSize"
    by (simp add: fixedSize_def)
  with e assms show ?thesis by simp
next
  case False
  with assms show ?thesis by (simp add: encode_not_fits)
qed

lemma decode_short: "length bs < 23 \<Longrightarrow> decode bs a = Inl StructError"
  by (simp add: decode_def struct_unpack_def fixedSize_eq calcsize_def packetFormat_def)

lemma decode_long:
  "23 \<le> length bs \<Longrightarrow> \<exists>pkt. decode bs a = Inr pkt \<and> data pkt = drop 23 bs"
  by (simp add: decode_def struct_unpack_def fixedSize_eq calcsize_def packetFormat_def
      PTCPPacket_def)

lemma zero_packet_encode:
  "encode (PTCPPacket 0 0 0 0 0 0 0 0 [] None) = Inr (replicate 23 0)"
  by (simp add: encode_def PTCPPacket_def packetFormat_def pack_one_def
      computeChecksum_def crc32_Nil be_bytes_numeral eval_nat_numeral)

text \<open>
  Claim C2, as the specification states it: the encoded header is exactly 19 bytes long and
  the initial MTU of a connection is 493.  It fails: \<^verbatim>\<open>struct.calcsize('!HHLLLBlH')\<close> is
  \<open>2 + 2 + 4 + 4 + 4 + 1 + 4 + 2 = 23\<close>.  The packet with all fields zero and no data
  encodes to 23 bytes, and the MTU of a new connection is 489.
\<close>

theorem header_size_counterexample:
  "encode (PTCPPacket 0 0 0 0 0 0 0 0 [] None) = Inr (replicate 23 0) \<and>
   data (PTCPPacket 0 0 0 0 0 0 0 0 [] None) = [] \<and>
   length (replicate 23 (0 :: byte)) \<noteq> 19 \<and>
   fixedSize \<noteq> 19 \<and>
   mtu (PTCPConnection 8 1 None) = 489 \<and>
   mtu (PTCPConnection 8 1 None) \<noteq> 493"
proof -
  have "data (PTCPPacket 0 0 0 0 0 0 0 0 [] None) = []"
    by (simp add: PTCPPacket_def)
  then show ?thesis
    by (simp add: zero_packet_encode fixedSize_eq PTCPConnection_def PTCPConnection_mtu_def)
qed

text \<open>
  Claim C2, amended: the header that \<^verbatim>\<open>encode\<close> writes in front of the data is exactly
  23 bytes long, which is \<^verbatim>\<open>_fixedSize\<close>; \<^verbatim>\<open>datagramReceived\<close> drops a datagram of fewer
  than 23 bytes (which \<^verbatim>\<open>decode\<close> would refuse) and does nothing else; \<^verbatim>\<open>decode\<close> takes
  the first 23 bytes of a longer datagram as the header and the bytes after them as the
  data; and the initial MTU of a new connection is 489, which is 512 minus the 23 bytes of
  the header.
\<close>

theorem header_size:
  "fixedSize = 23 \<and>
   mtu (PTCPConnection host peer a) = 512 - int fixedSize \<and>
   mtu (PTCPConnection host peer a) = 489 \<and>
   (\<forall>bs. encode P = Inr bs \<longrightarrow> (\<exists>hdr. bs = hdr @ data P \<and> length hdr = fixedSize)) \<and>
   (length dg < 23 \<longrightarrow>
      decode dg src = Inl StructError \<and>
      datagramReceived ev dg sender s = Some (s, Inr ())) \<and>
   (23 \<le> length dg \<longrightarrow> (\<exists>pkt. decode dg src = Inr pkt \<and> data pkt = drop 23 dg))"
  using header_length [of P] decode_short [of dg src] decode_long [of dg src]
  by (simp add: fixedSize_eq PTCPConnection_def PTCPConnection_mtu_def datagramReceived_def)

theorem header_size_witness:
  "encode (PTCPPacket 0 0 0 0 0 0 0 0 [] None) = Inr (replicate 23 0) \<and>
   (\<exists>hdr. replicate 23 0 = hdr @ data (PTCPPacket 0 0 0 0 0 0 0 0 [] None) \<and>
          length hdr = fixedSize) \<and>
   length (replicate 22 (0 :: byte)) < 23 \<and>
   decode (replicate 22 0) None = Inl StructError \<and>
   datagramReceived example_env (replicate 22 0) example_addr (startProtocol False)
     = Some (startProtocol False, Inr ()) \<and>
   23 \<le> length (replicate 23 (0 :: byte)) \<and>
   (\<exists>pkt. decode (replicate 23 0) None = Inr pkt \<and> data pkt = [])"
proof -
  let ?P = "PTCPPacket 0 0 0 0 0 0 0 0 [] None"
  have short: "length (replicate 22 (0 :: byte)) < 23"
    and long: "23 \<le> length (replicate 23 (0 :: byte))"
    and rest: "drop 23 (replicate 23 (0 :: byte)) = []"
    by simp_all
  from header_size [where P = ?P and dg = "replicate 22 0" and src = None
      and ev = example_env and sender = example_addr and s = "startProtocol False"]
  have 1: "\<forall>bs. encode ?P = Inr bs \<longrightarrow> (\<exists>hdr. bs = hdr @ data ?P \<and> length hdr = fixedSize)"
    and 2: "length (replicate 22 (0 :: byte)) < 23 \<longrightarrow>
      decode (replicate 22 0) None = Inl StructError \<and>
      datagramReceived example_env (replicate 22 0) example_addr (startProtocol False)
        = Some (startProtocol False, Inr ())"
    by blast+
  from header_size [where dg = "replicate 23 0" and src = None]
  have 3: "23 \<le> length (replicate 23 (0 :: byte)) \<longrightarrow>
      (\<exists>pkt. decode (replicate 23 0) None = Inr pkt \<and> data pkt = drop 23 (replicate 23 0))"
    by blast
  from 1 zero_packet_encode
  have a: "\<exists>hdr. replicate 23 0 = hdr @ data ?P \<and> length hdr = fixedSize"
    by blast
  from 2 short
  have b: "decode (replicate 22 0) None = Inl StructError"
    and c: "datagramReceived example_env (replicate 22 0) example_addr (startProtocol False)
        = Some (startProtocol False, Inr ())"
    by blast+
  from 3 long have "\<exists>pkt. decode (replicate 23 0) None = Inr pkt \<and>
      data pkt = drop 23 (replicate 23 0)"
    by blast
  then have d: "\<exists>pkt. decode (replicate 23 0) None = Inr pkt \<and> data pkt = []"
    by (simp only: rest)
  from zero_packet_encode a short b c long d show ?thesis
    by blast
qed

(*CODEC-END*)

section \<open>Properties of the connection\<close>

lemma seq_ok: "seq ok b = b"
  by (rule ext) (simp add: seq_def ok_def)

lemma seq_ok_right: "seq a ok = a"
  by (rule ext) (simp add: seq_def ok_def split: option.splits sum.splits prod.splits)

lemma seq_raise: "seq (raise e) b = raise e"
  by (rule ext) (simp add: seq_def raise_def)

lemma seq_modify: "seq (modify f) b w = b (w\<lparr>this := f (this w)\<rparr>)"
  by (simp add: seq_def modify_def)

lemma seq_emit: "seq (emit e) b w = b (w\<lparr>trace := trace w @ [e]\<rparr>)"
  by (simp add: seq_def emit_def)

lemma seq_cond: "seq (cond p x y) b w = (if p (this w) then seq x b w else seq y b w)"
  by (simp add: seq_def cond_def)

lemma seq_if: "seq (if c then x else y) b = (if c then seq x b else seq y b)"
  by simp

lemma seq_assoc: "seq (seq a b) c = seq a (seq b c)"
  by (rule ext) (simp add: seq_def split: option.splits sum.splits prod.splits)

lemma seq_seqs: "seq (seqs xs) b = foldr seq xs b"
  by (induction xs) (simp_all add: seq_ok seq_assoc)

lemmas act_simps =
  seq_ok seq_ok_right seq_raise seq_modify seq_emit seq_cond seq_if seq_assoc seq_seqs

lemma seqs_foldr: "seqs xs = foldr seq xs ok"
  by (induction xs) simp_all

lemma seqs_simps:
  "seqs [] = ok"
  "seqs (a # xs) w = seq a (seqs xs) w"
  by simp_all

lemma seq_Some_Inl: "a w = Some (w', Inl e) \<Longrightarrow> seq a b w = Some (w', Inl e)"
  by (simp add: seq_def)

lemma seq_Some_Inr: "a w = Some (w', Inr u) \<Longrightarrow> seq a b w = b w'"
  by (simp add: seq_def)

lemma machine_call_maybeReceiveAck: "machine_call ev ''maybeReceiveAck'' = raise AttributeError"
  by (simp add: machine_call_def machine_call_with_def TCP_inputs_def TCP_other_names_def)

lemma drain_eq:
  "drain (relativeAck p) rq swr =
     (dropWhile (covered p) rq, swr + sum_list (map segmentLength (takeWhile (covered p) rq)))"
  by (induction rq arbitrary: swr) (simp_all add: covered_def)

lemma processAck_acceptable:
  assumes "ack p"
    and "ackAcceptable (oldestUnackedSendSeqNum (this w)) (relativeAck p) (nextSendSeqNum (this w))"
  shows "processAck (machine_call ev) p w = Some (w\<lparr>this := acked p (this w)\<rparr>, Inl AttributeError)"
  using assms
  by (simp add: processAck_def cond_def machine_call_maybeReceiveAck drain_eq acked_def raise_def
      act_simps)

lemma processAck_not_acceptable:
  assumes "\<not> (ack p \<and>
     ackAcceptable (oldestUnackedSendSeqNum (this w)) (relativeAck p) (nextSendSeqNum (this w)))"
  shows "processAck call p w = Some (w, Inr ())"
  using assms by (auto simp: processAck_def cond_def ok_def act_simps)

lemma seq_processAck_acceptable:
  assumes "ack p"
    and "ackAcceptable (oldestUnackedSendSeqNum (this w)) (relativeAck p) (nextSendSeqNum (this w))"
  shows "seq (processAck (machine_call ev) p) b w =
     Some (w\<lparr>this := acked p (this w)\<rparr>, Inl AttributeError)"
  by (simp add: seq_def processAck_acceptable [OF assms])

lemma processSyn_continue:
  assumes "syn p" and "ack p" and "segmentLength p = 1" and "\<not> setPeerISN (this w)"
    and "if connPeerAddressTuple (this w) = None then wasEverListen (this w)
         else connPeerAddressTuple (this w) = peerAddressTuple p"
  shows "processSyn call p rest w = rest (w\<lparr>this := synced p (this w)\<rparr>)"
proof (cases "connPeerAddressTuple (this w) = None")
  case True
  with assms have "wasEverListen (this w)" by simp
  with True assms(1-4) show ?thesis
    by (simp add: processSyn_def cond_def assert_def synced_def act_simps)
next
  case False
  with assms have eq: "connPeerAddressTuple (this w) = peerAddressTuple p" by simp
  have "(this w)\<lparr>connPeerAddressTuple := peerAddressTuple p\<rparr> = this w"
    using eq [symmetric] by simp
  then have s: "synced p (this w) = (this w)\<lparr>setPeerISN := True, peerSendISN := seqNum p,
          nextRecvSeqNum := nextRecvSeqNum (this w) + 1\<rparr>"
    using assms(1,3) by (simp add: synced_def)
  show ?thesis
    unfolding s using False eq assms(1-4)
    by (auto simp: processSyn_def cond_def assert_def act_simps)
qed

lemma packetReceived_acceptable:
  assumes r: "reaches_ack (this w) p" and a: "ack p"
    and acc: "ackAcceptable (oldestUnackedSendSeqNum (this w)) (relativeAck p) (nextSendSeqNum (this w))"
  shows "packetReceived ev p w =
     Some (w\<lparr>this := acked p (synced p (this w))\<rparr>, Inl AttributeError)"
proof (cases "syn p")
  case False
  with r a acc show ?thesis
    by (simp add: packetReceived_def packetReceived_with_def reaches_ack_def cond_def synced_def
        ok_def seq_processAck_acceptable act_simps)
next
  case True
  let ?w = "w\<lparr>this := synced p (this w)\<rparr>"
  have acc': "ackAcceptable (oldestUnackedSendSeqNum (this ?w)) (relativeAck p) (nextSendSeqNum (this ?w))"
    using acc True by (simp add: synced_def)
  have rest: "seq (processAck (machine_call ev) p) b ?w = Some (?w\<lparr>this := acked p (this ?w)\<rparr>, Inl AttributeError)" for b
    by (rule seq_processAck_acceptable [OF a acc'])
  from r True have g: "\<not> stb p" "\<not> paused (this w)" "dlen p = 0" "segmentLength p = 1"
    "\<not> setPeerISN (this w)"
    and h: "if connPeerAddressTuple (this w) = None then wasEverListen (this w)
         else connPeerAddressTuple (this w) = peerAddressTuple p"
    by (simp_all add: reaches_ack_def)
  have "packetReceived ev p w =
      processSyn (machine_call ev) p
        (seq (processAck (machine_call ev) p) (seq (processSegment (machine_call ev) ev p) ok)) w"
    using True g by (simp add: packetReceived_def packetReceived_with_def cond_def act_simps)
  also have "\<dots> = seq (processAck (machine_call ev) p) (seq (processSegment (machine_call ev) ev p) ok) ?w"
    by (rule processSyn_continue [OF True a g(4) g(5) h])
  also have "\<dots> = Some (?w\<lparr>this := acked p (this ?w)\<rparr>, Inl AttributeError)"
    by (rule rest)
  finally show ?thesis by simp
qed


subsection \<open>Properties kept by every action\<close>

named_theorems keeps_intros

lemma keepsI: "(\<And>w w' r. P (this w) \<Longrightarrow> a w = Some (w', r) \<Longrightarrow> P (this w')) \<Longrightarrow> keeps P a"
  by (simp add: keeps_def)

lemma keepsD: "keeps P a \<Longrightarrow> P (this w) \<Longrightarrow> a w = Some (w', r) \<Longrightarrow> P (this w')"
  by (auto simp: keeps_def)

lemma keeps_ok [keeps_intros]: "keeps P ok"
  by (simp add: keeps_def ok_def)

lemma keeps_raise [keeps_intros]: "keeps P (raise e)"
  by (simp add: keeps_def raise_def)

lemma keeps_emit [keeps_intros]: "keeps P (emit e)"
  by (rule keepsI) (auto simp: emit_def)

lemma keeps_modify: "(\<And>c. P c \<Longrightarrow> P (f c)) \<Longrightarrow> keeps P (modify f)"
  by (rule keepsI) (auto simp: modify_def)

lemma keeps_seq [keeps_intros]:
  assumes a: "keeps P a" and b: "keeps P b"
  shows "keeps P (seq a b)"
proof (rule keepsI)
  fix w w' r
  assume P: "P (this w)" and run: "seq a b w = Some (w', r)"
  from run obtain w1 r1 where a1: "a w = Some (w1, r1)"
    by (auto simp: seq_def split: option.splits)
  from keepsD [OF a P a1] have P1: "P (this w1)" .
  show "P (this w')"
  proof (cases r1)
    case (Inl e)
    with run a1 have "w' = w1" by (simp add: seq_def)
    with P1 show ?thesis by simp
  next
    case (Inr u)
    with run a1 have "b w1 = Some (w', r)" by (simp add: seq_def)
    from keepsD [OF b P1 this] show ?thesis .
  qed
qed


lemma keeps_seqs_Nil [keeps_intros]: "keeps P (seqs [])"
  by (simp add: keeps_ok)

lemma keeps_seqs_Cons [keeps_intros]: "keeps P a \<Longrightarrow> keeps P (seqs xs) \<Longrightarrow> keeps P (seqs (a # xs))"
  unfolding seqs.simps by (rule keeps_seq)

lemma keeps_cond [keeps_intros]:
  assumes x: "keeps P x" and y: "keeps P y"
  shows "keeps P (cond b x y)"
proof (rule keepsI)
  fix w w' r
  assume P: "P (this w)" and run: "cond b x y w = Some (w', r)"
  show "P (this w')"
  proof (cases "b (this w)")
    case True
    with run have "x w = Some (w', r)" by (simp add: cond_def)
    from keepsD [OF x P this] show ?thesis .
  next
    case False
    with run have "y w = Some (w', r)" by (simp add: cond_def)
    from keepsD [OF y P this] show ?thesis .
  qed
qed

lemma keeps_assert [keeps_intros]: "keeps P (assert b)"
  unfolding assert_def by (intro keeps_cond keeps_ok keeps_raise)

lemma keeps_if [keeps_intros]: "keeps P x \<Longrightarrow> keeps P y \<Longrightarrow> keeps P (if b then x else y)"
  by (cases b) simp_all


lemma keeps_sendPacket [keeps_intros]: "keeps P (sendPacket p)"
proof (rule keepsI)
  fix w w' r
  assume "P (this w)" and "sendPacket p w = Some (w', r)"
  then show "P (this w')"
    by (cases "mux_sendPacket (ptcp w) p") (auto simp: sendPacket_def)
qed

lemma keeps_connectionClosed [keeps_intros]: "keeps P connectionClosed"
proof (rule keepsI)
  fix w w' r
  assume "P (this w)" and "connectionClosed w = Some (w', r)"
  then show "P (this w')"
    by (cases "mux_connectionClosed (ptcp w) (this w)") (auto simp: connectionClosed_def)
qed

lemma keeps_with_state:
  assumes "\<And>c. keeps P (f c)"
  shows "keeps P (\<lambda>w. f (this w) w)"
proof (rule keepsI)
  fix w w' r
  assume "P (this w)" and "f (this w) w = Some (w', r)"
  with keepsD [OF assms] show "P (this w')" by blast
qed

lemma segmentLength_create:
  "0 \<le> segmentLength (create src dst sq ak dat win sy ac fi rs st dest)"
proof -
  have "dlen (create src dst sq ak dat win sy ac fi rs st dest) = int (length dat)"
    by (simp add: create_def PTCPPacket_def flag_set_def Let_def)
  then show ?thesis by (simp add: segmentLength_def of_bool_int_def)
qed

lemma I_modify_other:
  "(\<And>c. oldestUnackedSendSeqNum (f c) = oldestUnackedSendSeqNum c) \<Longrightarrow>
   (\<And>c. nextSendSeqNum (f c) = nextSendSeqNum c) \<Longrightarrow> keeps una_le_nxt (modify f)"
  by (rule keeps_modify) (simp add: una_le_nxt_def)

named_theorems I_intros

lemmas [I_intros] = keeps_intros

lemma I_set_fields [I_intros]:
  "keeps una_le_nxt (modify (\<lambda>c. c\<lparr>retransmitter := b\<rparr>))"
  "keeps una_le_nxt (modify (\<lambda>c. c\<lparr>nagle := b\<rparr>))"
  "keeps una_le_nxt (modify (\<lambda>c. c\<lparr>ackTimer := b\<rparr>))"
  "keeps una_le_nxt (modify (\<lambda>c. c\<lparr>timeWaitCall := b\<rparr>))"
  "keeps una_le_nxt (modify (\<lambda>c. c\<lparr>closeWaitLoseConnection := b\<rparr>))"
  "keeps una_le_nxt (modify (\<lambda>c. c\<lparr>producerPaused := b\<rparr>))"
  "keeps una_le_nxt (modify (\<lambda>c. c\<lparr>producer := b\<rparr>))"
  "keeps una_le_nxt (modify (\<lambda>c. c\<lparr>streamingProducer := b\<rparr>))"
  "keeps una_le_nxt (modify (\<lambda>c. c\<lparr>disconnecting := b\<rparr>))"
  "keeps una_le_nxt (modify (\<lambda>c. c\<lparr>disconnected := b\<rparr>))"
  "keeps una_le_nxt (modify (\<lambda>c. c\<lparr>protocol := b\<rparr>))"
  "keeps una_le_nxt (modify (\<lambda>c. c\<lparr>paused := b\<rparr>))"
  "keeps una_le_nxt (modify (\<lambda>c. c\<lparr>wasEverListen := b\<rparr>))"
  "keeps una_le_nxt (modify (\<lambda>c. c\<lparr>setPeerISN := b\<rparr>))"
  "keeps una_le_nxt (modify (\<lambda>c. c\<lparr>peerSendISN := i\<rparr>))"
  "keeps una_le_nxt (modify (\<lambda>c. c\<lparr>connPeerAddressTuple := a\<rparr>))"
  "keeps una_le_nxt (modify (\<lambda>c. c\<lparr>nextRecvSeqNum := g c\<rparr>))"
  "keeps una_le_nxt (modify (\<lambda>c. c\<lparr>outgoingBytes := h c\<rparr>))"
  "keeps una_le_nxt (modify (\<lambda>c. c\<lparr>sendWindowRemaining := g c\<rparr>))"
  "keeps una_le_nxt (modify (\<lambda>c. c\<lparr>retransmissionQueue := q c\<rparr>))"
  by (rule I_modify_other; simp)+

lemma I_retransmitLater [I_intros]: "keeps una_le_nxt retransmitLater"
  unfolding retransmitLater_def by (intro I_intros)

lemma I_writeBufferFull [I_intros]: "keeps una_le_nxt writeBufferFull"
  unfolding writeBufferFull_def by (intro I_intros)

lemma I_originate_packet:
  assumes "0 \<le> segmentLength p"
  shows "keeps una_le_nxt (originate_packet p)"
proof -
  have "keeps una_le_nxt (modify (\<lambda>c. c\<lparr>nextSendSeqNum := nextSendSeqNum c + segmentLength p\<rparr>))"
    using assms by (intro keeps_modify) (simp add: una_le_nxt_def)
  then show ?thesis
    unfolding originate_packet_def by (intro I_intros)
qed

lemma I_originate [I_intros]: "keeps una_le_nxt (originate dat sy ac fi rs)"
proof -
  have "keeps una_le_nxt (\<lambda>w. originate_packet (new_packet (this w) dat sy ac fi rs) w)"
    by (rule keeps_with_state [where f = "\<lambda>c. originate_packet (new_packet c dat sy ac fi rs)"])
       (simp add: I_originate_packet new_packet_def segmentLength_create)
  then show ?thesis
    unfolding originate_def by (intro I_intros)
qed

lemma I_originateOneData [I_intros]: "keeps una_le_nxt originateOneData"
proof (rule keepsI)
  fix w w' r
  assume P: "una_le_nxt (this w)" and run: "originateOneData w = Some (w', r)"
  let ?amount = "min (sendWindowRemaining (this w)) (mtu (this w))"
  let ?sendOut = "py_slice (outgoingBytes (this w)) 0 ?amount"
  have "keeps una_le_nxt (seqs
          [modify (\<lambda>c. c\<lparr>outgoingBytes :=
              py_slice (outgoingBytes c) ?amount (int (length (outgoingBytes c)))\<rparr>),
           modify (\<lambda>c. c\<lparr>sendWindowRemaining := sendWindowRemaining c - int (length ?sendOut)\<rparr>),
           originate ?sendOut False True False False])"
    by (intro I_intros)
  from keepsD [OF this P] run show "una_le_nxt (this w')"
    by (simp add: originateOneData_def Let_def)
qed

lemma keeps_reallyWrite_loop:
  assumes one: "keeps P originateOneData"
  shows "keeps P reallyWrite_loop"
proof (rule keepsI)
  fix w w' r
  assume P: "P (this w)" and run: "reallyWrite_loop w = Some (w', r)"
  have "P (this w) \<longrightarrow> P (this (fst (w', r)))"
  proof (rule reallyWrite_loop.raw_induct
      [where P = "\<lambda>x y. P (this x) \<longrightarrow> P (this (fst y))", OF _ run])
    fix f x y
    assume IH: "\<And>x y. f x = Some y \<Longrightarrow> P (this x) \<longrightarrow> P (this (fst y))"
      and step: "(if sendWindowRemaining (this x) \<noteq> 0 \<and> outgoingBytes (this x) \<noteq> [] then
        (case originateOneData x of
           None \<Rightarrow> None
         | Some (w', Inl e) \<Rightarrow> Some (w', Inl e)
         | Some (w', Inr u) \<Rightarrow> f w')
      else Some (x, Inr ())) = Some y"
    show "P (this x) \<longrightarrow> P (this (fst y))"
    proof
      assume Px: "P (this x)"
      show "P (this (fst y))"
      proof (cases "sendWindowRemaining (this x) \<noteq> 0 \<and> outgoingBytes (this x) \<noteq> []")
        case False
        with step Px show ?thesis by auto
      next
        case True
        with step obtain w1 r1 where o: "originateOneData x = Some (w1, r1)"
          by (auto split: option.splits)
        from keepsD [OF one Px o] have P1: "P (this w1)" .
        show ?thesis
        proof (cases r1)
          case (Inl e)
          with step True o P1 show ?thesis by auto
        next
          case (Inr u)
          with step True o have "f w1 = Some y" by simp
          with IH P1 show ?thesis by blast
        qed
      qed
    qed
  qed
  with P show "P (this w')" by simp
qed

lemma I_reallyWrite [I_intros]: "keeps una_le_nxt reallyWrite"
  unfolding reallyWrite_def by (intro I_intros keeps_reallyWrite_loop)

lemma I_stopRetransmitting [I_intros]: "keeps una_le_nxt stopRetransmitting"
  unfolding stopRetransmitting_def by (intro I_intros)

lemma I_writeBufferEmpty:
  "(\<And>n. keeps una_le_nxt (call n)) \<Longrightarrow> keeps una_le_nxt (writeBufferEmpty call)"
  unfolding writeBufferEmpty_def by (intro I_intros)

lemma I_loseConnection:
  "(\<And>n. keeps una_le_nxt (call n)) \<Longrightarrow> keeps una_le_nxt (loseConnection call)"
  unfolding loseConnection_def by (intro I_intros I_writeBufferEmpty)

lemma I_ackSoon [I_intros]: "keeps una_le_nxt ackSoon"
  unfolding ackSoon_def by (intro I_intros)

lemma I_releaseConnectionResources [I_intros]: "keeps una_le_nxt releaseConnectionResources"
  unfolding releaseConnectionResources_def by (intro I_intros)

lemma I_scheduleTimeWaitTimeout [I_intros]: "keeps una_le_nxt scheduleTimeWaitTimeout"
  unfolding scheduleTimeWaitTimeout_def by (intro I_intros)

lemma I_connectionJustEstablished:
  "(\<And>n. keeps una_le_nxt (call n)) \<Longrightarrow> keeps una_le_nxt (connectionJustEstablished call ev)"
  unfolding connectionJustEstablished_def by (intro I_intros I_loseConnection)

lemma I_connectionJustEnded [I_intros]: "keeps una_le_nxt connectionJustEnded"
  unfolding connectionJustEnded_def by (intro I_intros)

lemma I_output_impl:
  "(\<And>n. keeps una_le_nxt (call n)) \<Longrightarrow> keeps una_le_nxt (output_impl call ev out)"
  by (cases out)
     (simp_all add: I_intros I_connectionJustEstablished nowListeningSocket_def
        nowHalfClosed_def outgoingConnectionFailed_def)

lemma keeps_seqs_map:
  "(\<And>x. keeps P (f x)) \<Longrightarrow> keeps P (seqs (map f xs))"
  by (induction xs) (simp_all add: keeps_ok keeps_seq)

lemma I_feed_with:
  assumes "\<And>n. keeps una_le_nxt (call n)"
  shows "keeps una_le_nxt (feed_with call ev i)"
proof (rule keepsI)
  fix w w' r
  assume P: "una_le_nxt (this w)" and run: "feed_with call ev i w = Some (w', r)"
  show "una_le_nxt (this w')"
  proof (cases "transition (machine (this w)) i")
    case (Inl e)
    with run P show ?thesis by (simp add: feed_with_def)
  next
    case (Inr tr)
    obtain t outs where tr: "tr = (t, outs)" by (cases tr)
    let ?w = "w\<lparr>this := (this w)\<lparr>machine := t\<rparr>\<rparr>"
    from Inr tr run have r: "seqs (map (output_impl call ev) outs) ?w = Some (w', r)"
      by (simp add: feed_with_def)
    have p: "una_le_nxt (this ?w)" using P by (simp add: una_le_nxt_def)
    have k: "keeps una_le_nxt (seqs (map (output_impl call ev) outs))"
      by (rule keeps_seqs_map) (rule I_output_impl [OF assms])
    from keepsD [OF k p r] show ?thesis .
  qed
qed

lemma I_machine_call_with:
  assumes "\<And>n. keeps una_le_nxt (call n)"
  shows "keeps una_le_nxt (machine_call_with call ev name)"
  unfolding machine_call_with_def
  by (cases "map_of TCP_inputs name") (simp_all add: keeps_raise I_feed_with [OF assms])

lemma I_machine_call [I_intros]: "keeps una_le_nxt (machine_call ev name)"
  unfolding machine_call_def
  by (intro I_machine_call_with) (simp add: no_call_def keeps_raise)

lemma I_shrinkMTU [I_intros]: "keeps una_le_nxt (shrinkMTU p)"
proof (rule keepsI)
  fix w w' r
  assume P: "una_le_nxt (this w)" and run: "shrinkMTU p w = Some (w', r)"
  then show "una_le_nxt (this w')"
    by (auto simp: shrinkMTU_def una_le_nxt_def Let_def
        split: sum.splits list.splits option.splits)
qed

lemma I_processAck:
  assumes "\<And>n. keeps una_le_nxt (call n)"
  shows "keeps una_le_nxt (processAck call p)"
proof (rule keepsI)
  fix w w' r
  assume P: "una_le_nxt (this w)" and run: "processAck call p w = Some (w', r)"
  let ?acc = "ack p \<and> ackAcceptable (oldestUnackedSendSeqNum (this w)) (relativeAck p)
                 (nextSendSeqNum (this w))"
  show "una_le_nxt (this w')"
  proof (cases ?acc)
    case False
    with run P show ?thesis by (auto simp: processAck_def cond_def ok_def)
  next
    case True
    let ?w1 = "w\<lparr>this := acked p (this w)\<rparr>"
    have p1: "una_le_nxt (this ?w1)"
      using True by (simp add: acked_def una_le_nxt_def ackAcceptable_def)
    have k: "keeps una_le_nxt (seqs [call ''maybeReceiveAck'',
          cond (\<lambda>c. retransmissionQueue c = []) (writeBufferEmpty call) ok])"
      by (intro I_intros I_writeBufferEmpty assms)
    have "processAck call p w = seqs [call ''maybeReceiveAck'',
          cond (\<lambda>c. retransmissionQueue c = []) (writeBufferEmpty call) ok] ?w1"
      using True by (simp add: processAck_def cond_def act_simps drain_eq acked_def)
    with run have r: "seqs [call ''maybeReceiveAck'',
          cond (\<lambda>c. retransmissionQueue c = []) (writeBufferEmpty call) ok] ?w1 = Some (w', r)"
      by simp
    from keepsD [OF k p1 r] show ?thesis .
  qed
qed

lemma I_deliver:
  assumes "\<And>n. keeps una_le_nxt (call n)"
  shows "keeps una_le_nxt (deliver call ev p)"
proof (rule keepsI)
  fix w w' r
  assume P: "una_le_nxt (this w)" and run: "deliver call ev p w = Some (w', r)"
  let ?d = "py_slice (data p) (nextRecvSeqNum (this w) - relativeSeq p) (int (length (data p)))"
  have k: "keeps una_le_nxt (seqs
          [call ''segmentReceived'',
           cond protocol
             (seqs [emit (DataReceived ?d),
                    (if dataReceivedRaises ev then seqs [emit LogMessage, loseConnection call]
                     else ok)])
             ok])"
    by (intro I_intros I_loseConnection assms)
  from keepsD [OF k P] run show "una_le_nxt (this w')"
    by (simp add: deliver_def Let_def)
qed

lemma I_processSegment:
  assumes "\<And>n. keeps una_le_nxt (call n)"
  shows "keeps una_le_nxt (processSegment call ev p)"
proof (rule keepsI)
  fix w w' r
  assume P: "una_le_nxt (this w)" and run: "processSegment call ev p w = Some (w', r)"
  have k1: "keeps una_le_nxt ackSoon" by (rule I_ackSoon)
  have k2: "keeps una_le_nxt (seqs
                 [(if dlen p \<noteq> 0 then deliver call ev p else ok),
                  modify (\<lambda>c. c\<lparr>nextRecvSeqNum := nextRecvSeqNum c + segmentLength p\<rparr>),
                  (if fin p then call ''fin''
                   else if segmentLength p > 0 then ackSoon else ok)])"
    by (intro I_intros I_deliver assms)
  from run P keepsD [OF k1 P] keepsD [OF k2 P] show "una_le_nxt (this w')"
    by (auto simp: processSegment_def split: if_splits sum.splits bool.splits)
qed

lemma I_processSyn:
  assumes "\<And>n. keeps una_le_nxt (call n)" and "keeps una_le_nxt rest"
  shows "keeps una_le_nxt (processSyn call p rest)"
  unfolding processSyn_def by (intro I_intros assms)

lemma I_packetReceived_with:
  assumes "\<And>n. keeps una_le_nxt (call n)"
  shows "keeps una_le_nxt (packetReceived_with call ev p)"
  unfolding packetReceived_with_def Let_def
  by (intro I_intros I_processSyn I_processAck I_processSegment assms)

lemma I_packetReceived [I_intros]: "keeps una_le_nxt (packetReceived ev p)"
  unfolding packetReceived_def by (rule I_packetReceived_with) (rule I_machine_call)

lemma I_retransmit_loop:
  assumes "\<And>n. keeps una_le_nxt (call n)"
  shows "keeps una_le_nxt (retransmit_loop call seen todo)"
proof (induction todo arbitrary: seen)
  case Nil
  show ?case by (simp add: I_retransmitLater)
next
  case (Cons packet todo)
  let ?p1 = "packet\<lparr>retransmitCount := retransmitCount packet - 1\<rparr>"
  show ?case
  proof (cases "retransmitCount ?p1 \<noteq> 0")
    case False
    have "keeps una_le_nxt (seqs [modify (\<lambda>c. c\<lparr>retransmissionQueue := seen @ ?p1 # todo\<rparr>),
                 call ''timeout''])"
      by (intro I_intros assms)
    with False show ?thesis by (simp add: Let_def)
  next
    case True
    have "keeps una_le_nxt (\<lambda>w.
             seqs [modify (\<lambda>c. c\<lparr>retransmissionQueue :=
                      seen @ ?p1\<lparr>ackNum := currentAckNum (this w)\<rparr> # todo\<rparr>),
                   sendPacket (?p1\<lparr>ackNum := currentAckNum (this w)\<rparr>),
                   retransmit_loop call (seen @ [?p1\<lparr>ackNum := currentAckNum (this w)\<rparr>]) todo] w)"
      by (rule keeps_with_state [where f = "\<lambda>c.
             seqs [modify (\<lambda>c'. c'\<lparr>retransmissionQueue :=
                      seen @ ?p1\<lparr>ackNum := currentAckNum c\<rparr> # todo\<rparr>),
                   sendPacket (?p1\<lparr>ackNum := currentAckNum c\<rparr>),
                   retransmit_loop call (seen @ [?p1\<lparr>ackNum := currentAckNum c\<rparr>]) todo]"])
         (intro I_intros Cons.IH)
    with True show ?thesis by (simp add: Let_def)
  qed
qed

lemma I_reallyRetransmit [I_intros]: "keeps una_le_nxt (reallyRetransmit ev)"
proof -
  have "keeps una_le_nxt (\<lambda>w. retransmit_loop (machine_call ev) [] (retransmissionQueue (this w)) w)"
    by (rule keeps_with_state [where f = "\<lambda>c. retransmit_loop (machine_call ev) [] (retransmissionQueue c)"])
       (rule I_retransmit_loop, rule I_machine_call)
  then show ?thesis
    unfolding reallyRetransmit_def reallyRetransmit_with_def by (intro I_intros)
qed

lemma I_conn_step: "keeps una_le_nxt (conn_step ev e)"
  by (cases e)
     (simp_all add: I_intros write_bytes_def writeSequence_def writeLater_def
        I_loseConnection registerProducer_def unregisterProducer_def I_writeBufferEmpty
        pauseProducing_def resumeProducing_def originateAck_def do2mslTimeout_def
        appCloseNow_def)

lemma reachable_una_le_nxt: "reachable_conn c \<Longrightarrow> una_le_nxt c"
proof (induction rule: reachable_conn.induct)
  case (fresh host peer peerAddr)
  show ?case by (simp add: una_le_nxt_def PTCPConnection_def)
next
  case (event c ev e m t w' r)
  from keepsD [OF I_conn_step, of "\<lparr>this = c, ptcp = m, trace = t\<rparr>"] event
  show ?case by simp
qed

section \<open>Properties of the state machine\<close>





subsection \<open>Outputs that leave the machine alone\<close>

named_theorems settles_intros

lemma settlesI:
  "(\<And>w. P (this w) \<Longrightarrow> \<exists>w' r. a w = Some (w', r) \<and> P (this w')) \<Longrightarrow> settles P a"
  by (simp add: settles_def)

lemma settlesD:
  "settles P a \<Longrightarrow> P (this w) \<Longrightarrow> \<exists>w' r. a w = Some (w', r) \<and> P (this w')"
  by (simp add: settles_def)

lemma settles_ok [settles_intros]: "settles P ok"
  by (simp add: settles_def ok_def)

lemma settles_raise [settles_intros]: "settles P (raise e)"
  by (simp add: settles_def raise_def)

lemma settles_emit [settles_intros]: "settles P (emit e)"
  by (simp add: settles_def emit_def)

lemma settles_modify: "(\<And>c. P c \<Longrightarrow> P (f c)) \<Longrightarrow> settles P (modify f)"
  by (simp add: settles_def modify_def)

lemma settles_seq [settles_intros]:
  assumes a: "settles P a" and b: "settles P b"
  shows "settles P (seq a b)"
proof (rule settlesI)
  fix w :: world
  assume "P (this w)"
  from settlesD [OF a this] obtain w1 r1 where a1: "a w = Some (w1, r1)" and P1: "P (this w1)"
    by blast
  show "\<exists>w' r. seq a b w = Some (w', r) \<and> P (this w')"
  proof (cases r1)
    case (Inl e)
    with a1 P1 show ?thesis by (simp add: seq_def)
  next
    case (Inr u)
    from settlesD [OF b P1] obtain w2 r2 where "b w1 = Some (w2, r2)" and "P (this w2)"
      by blast
    with a1 Inr show ?thesis by (simp add: seq_def)
  qed
qed

lemma settles_seqs_Nil [settles_intros]: "settles P (seqs [])"
  by (simp add: settles_ok)

lemma settles_seqs_Cons [settles_intros]:
  "settles P a \<Longrightarrow> settles P (seqs xs) \<Longrightarrow> settles P (seqs (a # xs))"
  unfolding seqs.simps by (rule settles_seq)

lemma settles_cond [settles_intros]:
  assumes x: "settles P x" and y: "settles P y"
  shows "settles P (cond b x y)"
proof (rule settlesI)
  fix w :: world
  assume P: "P (this w)"
  show "\<exists>w' r. cond b x y w = Some (w', r) \<and> P (this w')"
    using settlesD [OF x P] settlesD [OF y P] by (cases "b (this w)") (simp_all add: cond_def)
qed

lemma settles_assert [settles_intros]: "settles P (assert b)"
  unfolding assert_def by (intro settles_cond settles_ok settles_raise)

lemma settles_if [settles_intros]:
  "settles P x \<Longrightarrow> settles P y \<Longrightarrow> settles P (if b then x else y)"
  by (cases b) simp_all

lemma settles_sendPacket [settles_intros]: "settles P (sendPacket p)"
proof (rule settlesI)
  fix w :: world
  assume "P (this w)"
  then show "\<exists>w' r. sendPacket p w = Some (w', r) \<and> P (this w')"
    by (cases "mux_sendPacket (ptcp w) p") (simp_all add: sendPacket_def)
qed

lemma settles_connectionClosed [settles_intros]: "settles P connectionClosed"
proof (rule settlesI)
  fix w :: world
  assume "P (this w)"
  then show "\<exists>w' r. connectionClosed w = Some (w', r) \<and> P (this w')"
    by (cases "mux_connectionClosed (ptcp w) (this w)") (auto simp: connectionClosed_def)
qed

lemma settles_with_state:
  assumes "\<And>c. settles P (f c)"
  shows "settles P (\<lambda>w. f (this w) w)"
proof (rule settlesI)
  fix w :: world
  assume "P (this w)"
  with settlesD [OF assms] show "\<exists>w' r. f (this w) w = Some (w', r) \<and> P (this w')" by blast
qed


lemma M_set_fields [settles_intros]:
  "settles (\<lambda>c. machine c = t) (modify (\<lambda>c. c\<lparr>retransmitter := b\<rparr>))"
  "settles (\<lambda>c. machine c = t) (modify (\<lambda>c. c\<lparr>nagle := b\<rparr>))"
  "settles (\<lambda>c. machine c = t) (modify (\<lambda>c. c\<lparr>ackTimer := b\<rparr>))"
  "settles (\<lambda>c. machine c = t) (modify (\<lambda>c. c\<lparr>timeWaitCall := b\<rparr>))"
  "settles (\<lambda>c. machine c = t) (modify (\<lambda>c. c\<lparr>closeWaitLoseConnection := b\<rparr>))"
  "settles (\<lambda>c. machine c = t) (modify (\<lambda>c. c\<lparr>producerPaused := b\<rparr>))"
  "settles (\<lambda>c. machine c = t) (modify (\<lambda>c. c\<lparr>producer := b\<rparr>))"
  "settles (\<lambda>c. machine c = t) (modify (\<lambda>c. c\<lparr>disconnected := b\<rparr>))"
  "settles (\<lambda>c. machine c = t) (modify (\<lambda>c. c\<lparr>protocol := b\<rparr>))"
  "settles (\<lambda>c. machine c = t) (modify (\<lambda>c. c\<lparr>wasEverListen := b\<rparr>))"
  "settles (\<lambda>c. machine c = t) (modify (\<lambda>c. c\<lparr>nextSendSeqNum := g c\<rparr>))"
  "settles (\<lambda>c. machine c = t) (modify (\<lambda>c. c\<lparr>retransmissionQueue := q c\<rparr>))"
  by (rule settles_modify; simp)+

lemma M_retransmitLater [settles_intros]: "settles (\<lambda>c. machine c = t) retransmitLater"
  unfolding retransmitLater_def by (intro settles_intros)

lemma M_writeBufferFull [settles_intros]: "settles (\<lambda>c. machine c = t) writeBufferFull"
  unfolding writeBufferFull_def by (intro settles_intros)

lemma M_originate_packet: "settles (\<lambda>c. machine c = t) (originate_packet p)"
  unfolding originate_packet_def by (intro settles_intros)

lemma M_originate [settles_intros]: "settles (\<lambda>c. machine c = t) (originate dat sy ac fi rs)"
proof -
  have "settles (\<lambda>c. machine c = t) (\<lambda>w. originate_packet (new_packet (this w) dat sy ac fi rs) w)"
    by (rule settles_with_state [where f = "\<lambda>c. originate_packet (new_packet c dat sy ac fi rs)"])
       (rule M_originate_packet)
  then show ?thesis
    unfolding originate_def by (intro settles_intros)
qed

lemma M_stopRetransmitting [settles_intros]: "settles (\<lambda>c. machine c = t) stopRetransmitting"
  unfolding stopRetransmitting_def by (intro settles_intros)

lemma M_releaseConnectionResources [settles_intros]:
  "settles (\<lambda>c. machine c = t) releaseConnectionResources"
  unfolding releaseConnectionResources_def by (intro settles_intros)

lemma M_scheduleTimeWaitTimeout [settles_intros]:
  "settles (\<lambda>c. machine c = t) scheduleTimeWaitTimeout"
  unfolding scheduleTimeWaitTimeout_def by (intro settles_intros)

lemma M_connectionJustEnded [settles_intros]: "settles (\<lambda>c. machine c = t) connectionJustEnded"
  unfolding connectionJustEnded_def by (intro settles_intros)






subsection \<open>Acknowledgements\<close>


lemma example_flags:
  "syn synAck_packet" "ack synAck_packet" "\<not> stb synAck_packet" "\<not> fin synAck_packet"
  "\<not> syn ack_packet" "ack ack_packet" "\<not> stb ack_packet" "\<not> fin ack_packet"
  "syn client_syn" "\<not> fin client_syn"
  by (simp_all add: synAck_packet_def ack_packet_def client_syn_def PTCPPacket_def create_def
      flag_set_def Let_def syn_def ack_def stb_def fin_def flag_get_def flag_consts)

lemma example_fields:
  "dlen synAck_packet = 0" "relativeAck synAck_packet = 1" "segmentLength synAck_packet = 1"
  "peerAddressTuple synAck_packet = Some example_addr" "seqNum synAck_packet = 0"
  "dlen ack_packet = 0" "relativeAck ack_packet = 1" "segmentLength ack_packet = 0"
  "relativeSeq client_syn = 0" "segmentLength client_syn = 1"
  using example_flags
  by (simp_all add: segmentLength_def of_bool_int_def relativeAck_def relativeSeq_def
      relativeSequence_def)
     (simp_all add: synAck_packet_def ack_packet_def client_syn_def PTCPPacket_def create_def
      flag_set_def Let_def)

lemma example_reaches:
  "reaches_ack client_synSent synAck_packet" "reaches_ack client_synSent ack_packet"
  using example_flags example_fields
  by (simp_all add: reaches_ack_def)
     (simp_all add: client_synSent_def PTCPConnection_def)

lemma example_acceptable:
  "ackAcceptable (oldestUnackedSendSeqNum client_synSent) (relativeAck synAck_packet)
     (nextSendSeqNum client_synSent)"
  "ackAcceptable (oldestUnackedSendSeqNum client_synSent) (relativeAck ack_packet)
     (nextSendSeqNum client_synSent)"
  by (simp_all add: example_fields ackAcceptable_def client_synSent_def PTCPConnection_def)

lemma example_world_simps:
  "this (example_world c) = c" "trace (example_world c) = []"
  "ptcp (example_world c) = mx (startProtocol False)"
  by (simp_all add: example_world_def)

text \<open>
  Claim C1: for a packet whose acknowledgement is acceptable, \<^verbatim>\<open>packetReceived\<close> should
  feed \<^verbatim>\<open>synAck\<close> or \<^verbatim>\<open>ack\<close> to the machine, as the comment in the SYN block of the
  source announces.  The code does not: whenever a packet with the ACK flag and an
  acceptable acknowledgement number gets as far as the acknowledgement block, the method
  calls \<^verbatim>\<open>self.machine.maybeReceiveAck(packet)\<close>, a name that the class TCP does not have,
  and raises \<^verbatim>\<open>AttributeError\<close>.  No input is fed: the machine stays in its state and
  nothing is sent.
\<close>

theorem acceptable_ack_raises:
  assumes "reaches_ack (this w) p" and "ack p"
    and "ackAcceptable (oldestUnackedSendSeqNum (this w)) (relativeAck p) (nextSendSeqNum (this w))"
  shows "\<exists>w'. packetReceived ev p w = Some (w', Inl AttributeError) \<and>
           machine (this w') = machine (this w) \<and> trace w' = trace w \<and> ptcp w' = ptcp w"
  using packetReceived_acceptable [OF assms, of ev]
  by (simp add: acked_def synced_def)

theorem acceptable_ack_raises_witness:
  "\<exists>w'. packetReceived example_env synAck_packet (example_world client_synSent)
           = Some (w', Inl AttributeError) \<and>
        machine (this w') = S_synSent \<and> trace w' = [] \<and>
        ptcp w' = mx (startProtocol False)"
  using acceptable_ack_raises [of "example_world client_synSent" synAck_packet example_env]
    example_reaches example_flags example_acceptable
  by (simp add: example_world_def) (simp add: client_synSent_def)

text \<open>
  Claim C5, as the specification states it, fails: a paused connection returns from
  \<^verbatim>\<open>packetReceived\<close> before it looks at the acknowledgement.  The client below is
  paused, its SYN is on the queue, and the packet acknowledges the SYN acceptably; the
  call returns and leaves the connection as it was.
\<close>

theorem ack_processing_counterexample:
  "ack ack_packet \<and>
   ackAcceptable (oldestUnackedSendSeqNum (client_synSent\<lparr>paused := True\<rparr>))
     (relativeAck ack_packet) (nextSendSeqNum (client_synSent\<lparr>paused := True\<rparr>)) \<and>
   retransmissionQueue (client_synSent\<lparr>paused := True\<rparr>) = [client_syn] \<and>
   relativeSeq client_syn + segmentLength client_syn \<le> relativeAck ack_packet \<and>
   packetReceived example_env ack_packet (example_world (client_synSent\<lparr>paused := True\<rparr>))
     = Some (example_world (client_synSent\<lparr>paused := True\<rparr>), Inr ()) \<and>
   oldestUnackedSendSeqNum (client_synSent\<lparr>paused := True\<rparr>) \<noteq> relativeAck ack_packet"
proof -
  have "packetReceived example_env ack_packet (example_world (client_synSent\<lparr>paused := True\<rparr>))
     = Some (example_world (client_synSent\<lparr>paused := True\<rparr>), Inr ())"
    using example_flags
    by (simp add: packetReceived_def packetReceived_with_def cond_def ok_def example_world_simps)
  moreover have "retransmissionQueue (client_synSent\<lparr>paused := True\<rparr>) = [client_syn]"
    "oldestUnackedSendSeqNum (client_synSent\<lparr>paused := True\<rparr>) = 0"
    "nextSendSeqNum (client_synSent\<lparr>paused := True\<rparr>) = 1"
    by (simp_all add: client_synSent_def PTCPConnection_def)
  ultimately show ?thesis
    using example_flags example_fields by (simp add: ackAcceptable_def)
qed

text \<open>
  Claim C5, amended: for every connection and every received packet that gets as far as
  the acknowledgement block (the packet is no STB advisory, the connection is not paused,
  and a SYN passes the SYN block), that has the ACK flag and whose acknowledgement is
  acceptable, \<^verbatim>\<open>packetReceived\<close> removes from the front of the retransmission queue
  exactly the segments with relativeSeq + segmentLength \<le> the packet's relativeAck,
  increases \<^verbatim>\<open>sendWindowRemaining\<close> by the segment length of each removed segment, and
  sets \<^verbatim>\<open>oldestUnackedSendSeqNum\<close> to the packet's relativeAck; and in every reachable
  connection state \<^verbatim>\<open>oldestUnackedSendSeqNum \<le> nextSendSeqNum\<close>.
\<close>

theorem ack_processing:
  "(reaches_ack (this w) p \<and> ack p \<and>
      ackAcceptable (oldestUnackedSendSeqNum (this w)) (relativeAck p) (nextSendSeqNum (this w))
    \<longrightarrow>
      (\<exists>w' r removed.
         packetReceived ev p w = Some (w', r) \<and>
         retransmissionQueue (this w) = removed @ retransmissionQueue (this w') \<and>
         (\<forall>q \<in> set removed. covered p q) \<and>
         (retransmissionQueue (this w') \<noteq> [] \<longrightarrow>
            \<not> covered p (hd (retransmissionQueue (this w')))) \<and>
         sendWindowRemaining (this w') =
           sendWindowRemaining (this w) + sum_list (map segmentLength removed) \<and>
         oldestUnackedSendSeqNum (this w') = relativeAck p)) \<and>
   (reachable_conn c \<longrightarrow> oldestUnackedSendSeqNum c \<le> nextSendSeqNum c)"
proof (intro conjI impI)
  assume h: "reaches_ack (this w) p \<and> ack p \<and>
      ackAcceptable (oldestUnackedSendSeqNum (this w)) (relativeAck p) (nextSendSeqNum (this w))"
  let ?q = "retransmissionQueue (this w)"
  let ?w' = "w\<lparr>this := acked p (synced p (this w))\<rparr>"
  from h have run: "packetReceived ev p w = Some (?w', Inl AttributeError)"
    by (intro packetReceived_acceptable) simp_all
  have q: "retransmissionQueue (synced p (this w)) = ?q"
    and s: "sendWindowRemaining (synced p (this w)) = sendWindowRemaining (this w)"
    by (simp_all add: synced_def)
  have 1: "?q = takeWhile (covered p) ?q @ retransmissionQueue (this ?w')"
    by (simp add: acked_def q)
  have 2: "\<forall>q \<in> set (takeWhile (covered p) ?q). covered p q"
    by (auto dest: set_takeWhileD)
  have 3: "retransmissionQueue (this ?w') \<noteq> [] \<longrightarrow>
            \<not> covered p (hd (retransmissionQueue (this ?w')))"
    by (simp add: acked_def q hd_dropWhile)
  have 4: "sendWindowRemaining (this ?w') =
           sendWindowRemaining (this w) + sum_list (map segmentLength (takeWhile (covered p) ?q))"
    by (simp add: acked_def q s)
  have 5: "oldestUnackedSendSeqNum (this ?w') = relativeAck p"
    by (simp add: acked_def)
  from run 1 2 3 4 5 show "\<exists>w' r removed.
         packetReceived ev p w = Some (w', r) \<and>
         retransmissionQueue (this w) = removed @ retransmissionQueue (this w') \<and>
         (\<forall>q \<in> set removed. covered p q) \<and>
         (retransmissionQueue (this w') \<noteq> [] \<longrightarrow>
            \<not> covered p (hd (retransmissionQueue (this w')))) \<and>
         sendWindowRemaining (this w') =
           sendWindowRemaining (this w) + sum_list (map segmentLength removed) \<and>
         oldestUnackedSendSeqNum (this w') = relativeAck p"
    by blast
next
  assume "reachable_conn c"
  then show "oldestUnackedSendSeqNum c \<le> nextSendSeqNum c"
    using reachable_una_le_nxt by (simp add: una_le_nxt_def)
qed


theorem ack_processing_witness:
  "reaches_ack (this (example_world client_synSent)) ack_packet \<and> ack ack_packet \<and>
   ackAcceptable (oldestUnackedSendSeqNum (this (example_world client_synSent)))
     (relativeAck ack_packet) (nextSendSeqNum (this (example_world client_synSent))) \<and>
   retransmissionQueue (this (example_world client_synSent)) = [client_syn] \<and>
   covered ack_packet client_syn \<and>
   (\<exists>w' r.
      packetReceived example_env ack_packet (example_world client_synSent) = Some (w', r) \<and>
      retransmissionQueue (this w') = [] \<and>
      sendWindowRemaining (this w') =
        sendWindowRemaining (this (example_world client_synSent)) + segmentLength client_syn \<and>
      oldestUnackedSendSeqNum (this w') = relativeAck ack_packet) \<and>
   reachable_conn (PTCPConnection 8 1 None) \<and>
   oldestUnackedSendSeqNum (PTCPConnection 8 1 None) \<le> nextSendSeqNum (PTCPConnection 8 1 None)"
proof -
  let ?W = "example_world client_synSent"
  have h: "reaches_ack (this ?W) ack_packet \<and> ack ack_packet \<and>
   ackAcceptable (oldestUnackedSendSeqNum (this ?W))
     (relativeAck ack_packet) (nextSendSeqNum (this ?W))"
    using example_reaches example_flags example_acceptable by (simp add: example_world_simps)
  have q: "retransmissionQueue (this ?W) = [client_syn]"
    by (simp add: example_world_simps client_synSent_def)
  have cov: "covered ack_packet client_syn"
    by (simp add: covered_def example_fields)
  have r: "reachable_conn (PTCPConnection 8 1 None)"
    by (rule reachable_conn.fresh)
  note inst = ack_processing [of ?W ack_packet example_env "PTCPConnection 8 1 None"]
  from inst r have inv:
    "oldestUnackedSendSeqNum (PTCPConnection 8 1 None) \<le> nextSendSeqNum (PTCPConnection 8 1 None)"
    by blast
  from inst h obtain w' r removed where
    run: "packetReceived example_env ack_packet ?W = Some (w', r)"
    and split: "retransmissionQueue (this ?W) = removed @ retransmissionQueue (this w')"
    and hd: "retransmissionQueue (this w') \<noteq> [] \<longrightarrow>
         \<not> covered ack_packet (hd (retransmissionQueue (this w')))"
    and swr: "sendWindowRemaining (this w') =
        sendWindowRemaining (this ?W) + sum_list (map segmentLength removed)"
    and una: "oldestUnackedSendSeqNum (this w') = relativeAck ack_packet"
    by blast
  have empty: "retransmissionQueue (this w') = []"
  proof (rule ccontr)
    assume ne: "retransmissionQueue (this w') \<noteq> []"
    with split q have "retransmissionQueue (this w') = [client_syn]"
      by (cases removed) simp_all
    with hd cov show False by simp
  qed
  with split q have "removed = [client_syn]" by simp
  with swr have "sendWindowRemaining (this w') =
      sendWindowRemaining (this ?W) + segmentLength client_syn"
    by simp
  with run empty una have "\<exists>w' r.
      packetReceived example_env ack_packet ?W = Some (w', r) \<and>
      retransmissionQueue (this w') = [] \<and>
      sendWindowRemaining (this w') =
        sendWindowRemaining (this ?W) + segmentLength client_syn \<and>
      oldestUnackedSendSeqNum (this w') = relativeAck ack_packet"
    by blast
  with h q cov r inv show ?thesis by blast
qed

subsection \<open>The retransmit timer\<close>

lemma sendPacket_sendable:
  "sendable (ptcp w) p \<Longrightarrow> sendPacket p w = Some (w\<lparr>trace := trace w @ writes (ptcp w) p\<rparr>, Inr ())"
  by (cases "mux_sendPacket (ptcp w) p") (simp_all add: sendable_def writes_def sendPacket_def)

lemma refreshed_frame:
  "refreshed (c\<lparr>retransmissionQueue := q\<rparr>) = refreshed c"
  "refreshed (c\<lparr>retransmitter := b\<rparr>) = refreshed c"
  by (rule ext, simp add: refreshed_def currentAckNum_def)+

lemma retransmit_loop_walk:
  assumes "retransmissionQueue (this w) = seen @ todo"
    and "\<forall>p \<in> set (takeWhile alive todo). sendable (ptcp w) (refreshed (this w) p)"
  shows "retransmit_loop call seen todo w =
     (let w1 = w\<lparr>this := (this w)\<lparr>retransmissionQueue :=
                     seen @ map (refreshed (this w)) (takeWhile alive todo)
                       @ expire_head (dropWhile alive todo)\<rparr>,
                  trace := trace w @ concat (map (\<lambda>p. writes (ptcp w) (refreshed (this w) p))
                                        (takeWhile alive todo))\<rparr>
      in case dropWhile alive todo of
           [] \<Rightarrow> retransmitLater w1
         | z # rest \<Rightarrow> call ''timeout'' w1)"
  using assms
proof (induction todo arbitrary: seen w)
  case Nil
  then have "w\<lparr>this := (this w)\<lparr>retransmissionQueue := seen\<rparr>, trace := trace w\<rparr> = w"
    by simp
  then show ?case by (simp add: expire_head_def)
next
  case (Cons packet todo)
  show ?case
  proof (cases "alive packet")
    case False
    then show ?thesis
      by (simp add: alive_def Let_def expire_head_def expired_def act_simps)
  next
    case True
    let ?p2 = "refreshed (this w) packet"
    let ?w1 = "w\<lparr>this := (this w)\<lparr>retransmissionQueue := seen @ ?p2 # todo\<rparr>\<rparr>"
    let ?w2 = "?w1\<lparr>trace := trace ?w1 @ writes (ptcp ?w1) ?p2\<rparr>"
    from Cons.prems True have s: "sendable (ptcp ?w1) ?p2" by simp
    have sp: "seq (sendPacket ?p2) b ?w1 = b ?w2" for b
      using sendPacket_sendable [OF s] by (simp add: seq_def)
    have "retransmit_loop call seen (packet # todo) w =
        seq (sendPacket ?p2) (retransmit_loop call (seen @ [?p2]) todo) ?w1"
      using True by (simp add: alive_def Let_def refreshed_def act_simps)
    then have step: "retransmit_loop call seen (packet # todo) w =
        retransmit_loop call (seen @ [?p2]) todo ?w2"
      by (simp only: sp)
    have q: "retransmissionQueue (this ?w2) = (seen @ [?p2]) @ todo" by simp
    have r: "refreshed (this ?w2) = refreshed (this w)"
      by (simp add: refreshed_frame)
    have snd: "\<forall>p \<in> set (takeWhile alive todo). sendable (ptcp ?w2) (refreshed (this ?w2) p)"
      using Cons.prems True by (simp add: refreshed_frame)
    show ?thesis
      unfolding step Cons.IH [OF q snd]
      using True by (simp add: refreshed_frame Let_def)
  qed
qed

lemma reallyRetransmit_walk:
  assumes "retransmissionQueue (this w) \<noteq> []"
    and "\<forall>p \<in> set (takeWhile alive (retransmissionQueue (this w))).
           sendable (ptcp w) (refreshed (this w) p)"
  shows "reallyRetransmit ev w =
     (case dropWhile alive (retransmissionQueue (this w)) of
        [] \<Rightarrow> Some ((walked w)\<lparr>this := (this (walked w))\<lparr>retransmitter := True\<rparr>\<rparr>, Inr ())
      | z # rest \<Rightarrow> machine_call ev ''timeout'' (walked w))"
proof -
  let ?w0 = "w\<lparr>this := (this w)\<lparr>retransmitter := False\<rparr>\<rparr>"
  note r = refreshed_frame
  have q: "retransmissionQueue (this ?w0) = [] @ retransmissionQueue (this w)" by simp
  have s: "\<forall>p \<in> set (takeWhile alive (retransmissionQueue (this w))).
      sendable (ptcp ?w0) (refreshed (this ?w0) p)"
    using assms(2) by (simp add: r)
  have "reallyRetransmit ev w =
      retransmit_loop (machine_call ev) [] (retransmissionQueue (this w)) ?w0"
    using assms(1) by (simp add: reallyRetransmit_def reallyRetransmit_with_def act_simps cond_def)
  also note retransmit_loop_walk [OF q s]
  finally have eq: "reallyRetransmit ev w =
     (case dropWhile alive (retransmissionQueue (this w)) of
        [] \<Rightarrow> retransmitLater (walked w)
      | z # rest \<Rightarrow> machine_call ev ''timeout'' (walked w))"
    by (simp add: Let_def r walked_def cong: list.case_cong)
  have rl: "retransmitLater (walked w) =
      Some ((walked w)\<lparr>this := (this (walked w))\<lparr>retransmitter := True\<rparr>\<rparr>, Inr ())"
    by (simp add: retransmitLater_def cond_def modify_def walked_def Let_def)
  show ?thesis
  proof (cases "dropWhile alive (retransmissionQueue (this w))")
    case Nil
    show ?thesis by (simp only: eq Nil list.case rl)
  next
    case (Cons z rest)
    show ?thesis by (simp only: eq Cons list.case)
  qed
qed

lemma writes_sendable:
  assumes "sendable m p" and "\<not> transportGoneAway m"
  shows "\<exists>bs d. encode p = Inr bs \<and> destination p = Some d \<and>
           writes m p = [TransportWrite bs d]"
  using assms
  by (auto simp: sendable_def writes_def mux_sendPacket_def split: sum.splits option.splits)

lemma writes_gone: "transportGoneAway m \<Longrightarrow> sendable m p \<and> writes m p = []"
  by (simp add: sendable_def writes_def mux_sendPacket_def)

lemma machine_call_timeout:
  "machine_call ev ''timeout'' = feed_with (machine_call_with no_call ev) ev I_timeout"
  by (simp add: machine_call_def machine_call_with_def TCP_inputs_def)

text \<open>
  Claim C8, as the specification states it, fails: a packet whose counter is still
  positive is passed to \<^verbatim>\<open>PTCP.sendPacket\<close>, which returns without writing when the
  transport has gone away.  The SYN of the example client has the counter 49 after the
  timer fired, and nothing was sent.
\<close>

theorem retransmit_walk_counterexample:
  "transportGoneAway (ptcp gone_world) \<and>
   map retransmitCount (retransmissionQueue (this gone_world)) = [50] \<and>
   map_option (\<lambda>x. map retransmitCount (retransmissionQueue (this (fst x))))
     (reallyRetransmit example_env gone_world) = Some [49] \<and>
   map_option (\<lambda>x. trace (fst x)) (reallyRetransmit example_env gone_world) = Some [] \<and>
   trace gone_world = []"
  by code_simp

text \<open>
  Claim C8, amended: every packet starts with a retransmit counter of 50, and on each
  firing of the retransmit timer with a non-empty retransmission queue, the queue is
  walked in order, as long as \<^verbatim>\<open>PTCP.sendPacket\<close> returns: the counter of a packet is
  decremented; every packet before the first whose counter reaches zero has its ackNum
  refreshed to \<^verbatim>\<open>currentAckNum()\<close> and is passed to \<^verbatim>\<open>PTCP.sendPacket\<close>, which writes its
  encoding to the transport unless the transport has gone away; at the first packet whose
  counter reaches zero the \<^verbatim>\<open>timeout\<close> input is fed to the state machine and the walk
  stops (the packets after it are not touched, the timer is not armed again); when no
  counter reaches zero the timer is armed again.
\<close>

theorem retransmit_walk:
  assumes "retransmissionQueue (this w) \<noteq> []"
    and "\<forall>p \<in> set (takeWhile alive (retransmissionQueue (this w))).
           sendable (ptcp w) (refreshed (this w) p)"
  shows "retransmitCount (PTCPPacket src dst sq ak win fl ck dl dat peer) = 50 \<and>
    retransmitCount (create src dst sq ak dat win sy ac fi rs st dest) = 50 \<and>
    reallyRetransmit ev w =
      (case dropWhile alive (retransmissionQueue (this w)) of
         [] \<Rightarrow> Some ((walked w)\<lparr>this := (this (walked w))\<lparr>retransmitter := True\<rparr>\<rparr>, Inr ())
       | z # rest \<Rightarrow> feed_with (machine_call_with no_call ev) ev I_timeout (walked w)) \<and>
    retransmissionQueue (this (walked w)) =
      map (\<lambda>p. p\<lparr>retransmitCount := retransmitCount p - 1,
                     ackNum := currentAckNum (this w)\<rparr>)
        (takeWhile (\<lambda>p. retransmitCount p - 1 \<noteq> 0) (retransmissionQueue (this w))) @
      (case dropWhile (\<lambda>p. retransmitCount p - 1 \<noteq> 0) (retransmissionQueue (this w)) of
         [] \<Rightarrow> []
       | z # rest \<Rightarrow> z\<lparr>retransmitCount := 0\<rparr> # rest) \<and>
    trace (walked w) =
      trace w @ concat (map (\<lambda>p. writes (ptcp w) (refreshed (this w) p))
                         (takeWhile alive (retransmissionQueue (this w)))) \<and>
    (\<forall>p \<in> set (takeWhile alive (retransmissionQueue (this w))).
       if transportGoneAway (ptcp w) then writes (ptcp w) (refreshed (this w) p) = []
       else (\<exists>bs d. encode (refreshed (this w) p) = Inr bs \<and>
                    destination (refreshed (this w) p) = Some d \<and>
                    writes (ptcp w) (refreshed (this w) p) = [TransportWrite bs d]))"
proof -
  let ?q = "retransmissionQueue (this w)"
  have alive_eq: "alive = (\<lambda>p. retransmitCount p - 1 \<noteq> 0)"
    by (rule ext) (simp add: alive_def)
  have refreshed_eq: "refreshed (this w) =
      (\<lambda>p. p\<lparr>retransmitCount := retransmitCount p - 1, ackNum := currentAckNum (this w)\<rparr>)"
    by (rule ext) (simp add: refreshed_def)
  have hd0: "expired z = z\<lparr>retransmitCount := 0\<rparr>" if "dropWhile alive ?q = z # rest" for z rest
  proof -
    from that have "\<not> alive z" using hd_dropWhile [of alive ?q] by auto
    then show ?thesis by (simp add: alive_def expired_def)
  qed
  have 1: "retransmitCount (PTCPPacket src dst sq ak win fl ck dl dat peer) = 50"
    by (simp add: PTCPPacket_def)
  have 2: "retransmitCount (create src dst sq ak dat win sy ac fi rs st dest) = 50"
    by (simp add: create_def PTCPPacket_def flag_set_def Let_def)
  have 3: "reallyRetransmit ev w =
      (case dropWhile alive ?q of
         [] \<Rightarrow> Some ((walked w)\<lparr>this := (this (walked w))\<lparr>retransmitter := True\<rparr>\<rparr>, Inr ())
       | z # rest \<Rightarrow> feed_with (machine_call_with no_call ev) ev I_timeout (walked w))"
    using reallyRetransmit_walk [OF assms, of ev] by (simp only: machine_call_timeout)
  have "expire_head (dropWhile alive ?q) =
      (case dropWhile alive ?q of [] \<Rightarrow> [] | z # rest \<Rightarrow> z\<lparr>retransmitCount := 0\<rparr> # rest)"
  proof (cases "dropWhile alive ?q")
    case Nil
    show ?thesis by (simp only: Nil expire_head_def list.case)
  next
    case (Cons z rest)
    from hd0 [OF Cons] show ?thesis by (simp only: Cons expire_head_def list.case)
  qed
  then have 4: "retransmissionQueue (this (walked w)) =
      map (\<lambda>p. p\<lparr>retransmitCount := retransmitCount p - 1,
                     ackNum := currentAckNum (this w)\<rparr>)
        (takeWhile (\<lambda>p. retransmitCount p - 1 \<noteq> 0) ?q) @
      (case dropWhile (\<lambda>p. retransmitCount p - 1 \<noteq> 0) ?q of
         [] \<Rightarrow> []
       | z # rest \<Rightarrow> z\<lparr>retransmitCount := 0\<rparr> # rest)"
    unfolding alive_eq [symmetric] refreshed_eq [symmetric]
    by (simp add: walked_def Let_def)
  have 5: "trace (walked w) =
      trace w @ concat (map (\<lambda>p. writes (ptcp w) (refreshed (this w) p)) (takeWhile alive ?q))"
    by (simp add: walked_def Let_def)
  have 6: "\<forall>p \<in> set (takeWhile alive ?q).
       if transportGoneAway (ptcp w) then writes (ptcp w) (refreshed (this w) p) = []
       else (\<exists>bs d. encode (refreshed (this w) p) = Inr bs \<and>
                    destination (refreshed (this w) p) = Some d \<and>
                    writes (ptcp w) (refreshed (this w) p) = [TransportWrite bs d])"
    using assms(2) writes_sendable writes_gone by (simp split: if_splits)
  from 1 2 3 4 5 6 show ?thesis by blast
qed

theorem retransmit_walk_witness:
  "retransmissionQueue (this (example_world client_synSent)) = [client_syn] \<and>
   alive client_syn \<and>
   sendable (ptcp (example_world client_synSent))
     (refreshed (this (example_world client_synSent)) client_syn) \<and>
   reallyRetransmit example_env (example_world client_synSent) =
     Some ((walked (example_world client_synSent))
             \<lparr>this := (this (walked (example_world client_synSent)))
                        \<lparr>retransmitter := True\<rparr>\<rparr>, Inr ()) \<and>
   map retransmitCount (retransmissionQueue (this (walked (example_world client_synSent))))
     = [49] \<and>
   trace (walked (example_world client_synSent)) =
     [TransportWrite [0, 8, 0, 1, 0, 0, 0, 0, 0, 0, 0, 0, 0, 0, 1, 233, 1, 0, 0, 0, 0, 0, 0]
        (Some example_addr)]"
proof -
  let ?W = "example_world client_synSent"
  have q: "retransmissionQueue (this ?W) = [client_syn]"
    by (simp add: example_world_simps client_synSent_def)
  have a: "alive client_syn"
    by (simp add: alive_def client_syn_def create_def PTCPPacket_def flag_set_def Let_def)
  have s: "sendable (ptcp ?W) (refreshed (this ?W) client_syn)"
    by code_simp
  have h1: "retransmissionQueue (this ?W) \<noteq> []"
    and h2: "\<forall>p \<in> set (takeWhile alive (retransmissionQueue (this ?W))).
           sendable (ptcp ?W) (refreshed (this ?W) p)"
    using q a s by simp_all
  have d: "dropWhile alive (retransmissionQueue (this ?W)) = []"
    using q a by simp
  from retransmit_walk [OF h1 h2, where ev = example_env]
  have run: "reallyRetransmit example_env ?W =
     Some ((walked ?W)\<lparr>this := (this (walked ?W))\<lparr>retransmitter := True\<rparr>\<rparr>, Inr ())"
    by (simp only: d list.case)
  have c: "map retransmitCount (retransmissionQueue (this (walked ?W))) = [49]"
    by code_simp
  have t: "trace (walked ?W) =
     [TransportWrite [0, 8, 0, 1, 0, 0, 0, 0, 0, 0, 0, 0, 0, 0, 1, 233, 1, 0, 0, 0, 0, 0, 0]
        (Some example_addr)]"
    by code_simp
  from q a s run c t show ?thesis by blast
qed

subsection \<open>Datagrams that fail the checksum\<close>

lemma from_be_range: "0 \<le> from_be bs \<and> from_be bs < 256 ^ length bs"
proof (induction bs rule: rev_induct)
  case Nil
  show ?case by (simp add: from_be_def)
next
  case (snoc b bs)
  have "0 \<le> uint b" "uint b < 256"
    using uint_bounded [of b] by simp_all
  with snoc show ?case
    by (simp add: from_be_snoc)
qed

lemma unpack_H_range:
  "length bs = 2 \<Longrightarrow> 0 \<le> unpack_one Fmt_H bs \<and> unpack_one Fmt_H bs < 65536"
  using from_be_range [of bs] by (simp add: unpack_one_def)

lemma decode_ranges:
  assumes "decode bs a = Inr pkt"
  shows "0 \<le> sourcePseudoPort pkt \<and> sourcePseudoPort pkt < 65536 \<and>
         0 \<le> destPseudoPort pkt \<and> destPseudoPort pkt < 65536 \<and>
         0 \<le> dlen pkt \<and> dlen pkt < 65536 \<and> 23 \<le> length bs"
proof -
  from assms have len: "23 \<le> length bs"
    using decode_short [of bs a] by (cases "length bs < 23") simp_all
  let ?h = "take 23 bs"
  from len have l: "length (take 2 ?h) = 2" "length (take 2 (drop 2 ?h)) = 2"
    "length (drop 21 ?h) = 2"
    by simp_all
  from assms len have
    "sourcePseudoPort pkt = unpack_one Fmt_H (take 2 ?h)"
    "destPseudoPort pkt = unpack_one Fmt_H (take 2 (drop 2 ?h))"
    "dlen pkt = unpack_one Fmt_H (drop 21 ?h)"
    by (auto simp: decode_def struct_unpack_def fixedSize_eq calcsize_def packetFormat_def
        PTCPPacket_def)
  with l [THEN unpack_H_range] len show ?thesis by simp
qed

lemma verifyChecksum_cases:
  "(verifyChecksum pkt = Inl TruncatedDataError \<longleftrightarrow> int (length (data pkt)) < dlen pkt) \<and>
   (verifyChecksum pkt = Inl GarbageDataError \<longleftrightarrow> dlen pkt < int (length (data pkt))) \<and>
   ((\<exists>e r. verifyChecksum pkt = Inl (ChecksumMismatchError e r)) \<longleftrightarrow>
      int (length (data pkt)) = dlen pkt \<and> crc32 (data pkt) \<noteq> checksum pkt) \<and>
   (verifyChecksum pkt = Inr () \<longleftrightarrow>
      int (length (data pkt)) = dlen pkt \<and> crc32 (data pkt) = checksum pkt)"
  by (auto simp: verifyChecksum_def computeChecksum_def Let_def)

lemma stb_advisory_encode:
  assumes "0 \<le> src" "src < 65536" "0 \<le> dst" "dst < 65536" "length dat < 65536"
  shows "\<exists>wire. encode (create src dst 0 0 dat default_window
                    False False False False True dest) = Inr wire"
proof -
  let ?r = "create src dst 0 0 dat default_window False False False False True dest"
  have "fields_fit ?r"
    using assms
    by (simp add: fields_fit_def create_def PTCPPacket_def flag_set_def Let_def flag_consts
        default_window_def)
  from encode_fits [OF this] show ?thesis by blast
qed

lemma stb_advisory_fields:
  "stb (create src dst 0 0 dat default_window False False False False True dest)"
  "data (create src dst 0 0 dat default_window False False False False True dest) = dat"
  "destination (create src dst 0 0 dat default_window False False False False True dest)
     = Some dest"
  "sourcePseudoPort (create src dst 0 0 dat default_window False False False False True dest)
     = src"
  "destPseudoPort (create src dst 0 0 dat default_window False False False False True dest)
     = dst"
  by (simp_all add: create_def PTCPPacket_def flag_set_def Let_def flag_consts stb_def
      flag_get_def)

lemma datagram_truncated:
  assumes "decode bs (Some a) = Inr pkt" and "int (length (data pkt)) < dlen pkt"
  shows "\<exists>wire.
    encode (create (destPseudoPort pkt) (sourcePseudoPort pkt) 0 0
              (be_bytes 2 (int (length (data pkt)))) default_window
              False False False False True (Some a)) = Inr wire \<and>
    datagramReceived ev bs a s =
      Some (s\<lparr>tr := tr s @ (if transportGoneAway (mx s) then []
                               else [TransportWrite wire (Some a)])\<rparr>, Inr ())"
proof -
  let ?n = "int (length (data pkt))"
  let ?r = "create (destPseudoPort pkt) (sourcePseudoPort pkt) 0 0 (be_bytes 2 ?n)
              default_window False False False False True (Some a)"
  note rg = decode_ranges [OF assms(1)]
  from rg assms(2) have n: "?n < 65536" by simp
  then have pay: "struct_pack [Fmt_H] [?n] = Inr (be_bytes 2 ?n)"
    by (simp add: pack_one_def)
  then have reply: "stb_reply pkt a = Inr ?r"
    by (simp add: stb_reply_def)
  from rg have "\<exists>wire. encode ?r = Inr wire"
    by (intro stb_advisory_encode) (simp_all add: length_be_bytes)
  then obtain wire where wire: "encode ?r = Inr wire" by blast
  have send: "mux_sendPacket (mx s) ?r =
      Inr (if transportGoneAway (mx s) then [] else [TransportWrite wire (Some a)])"
    by (simp add: mux_sendPacket_def wire stb_advisory_fields)
  from assms(2) have v: "verifyChecksum pkt = Inl TruncatedDataError"
    by (simp add: verifyChecksum_cases)
  from rg have "\<not> length bs < fixedSize" by (simp add: fixedSize_eq)
  then have "datagramReceived ev bs a s =
      Some (s\<lparr>tr := tr s @ (if transportGoneAway (mx s) then []
                               else [TransportWrite wire (Some a)])\<rparr>, Inr ())"
    by (simp add: datagramReceived_def assms(1) v reply send)
  with wire show ?thesis by blast
qed

lemma datagram_dropped:
  assumes "decode bs (Some a) = Inr pkt"
  shows "(dlen pkt < int (length (data pkt)) \<longrightarrow>
            datagramReceived ev bs a s = Some (s\<lparr>tr := tr s @ [LogMessage]\<rparr>, Inr ())) \<and>
         (int (length (data pkt)) = dlen pkt \<and> crc32 (data pkt) \<noteq> checksum pkt \<longrightarrow>
            datagramReceived ev bs a s =
              Some (s\<lparr>tr := tr s @ [LogMessage, LogMessage, LogMessage]\<rparr>, Inr ()))"
proof -
  from decode_ranges [OF assms] have "\<not> length bs < fixedSize" by (simp add: fixedSize_eq)
  then show ?thesis
    by (simp add: datagramReceived_def assms verifyChecksum_def computeChecksum_def Let_def)
qed

text \<open>
  Claim C7, as the specification states it, fails in one place: after a Truncated failure
  the STB packet goes through \<^verbatim>\<open>PTCP.sendPacket\<close>, which sends nothing when the transport
  has gone away.  The datagram below announces 5 bytes of data and carries 2; the
  multiplexer whose transport has gone away returns without any effect.
\<close>

theorem checksum_failures_counterexample:
  "decode trunc_dg (Some example_addr)
     = Inr (PTCPPacket 8 1 0 0 0 0 0 5 [1, 2] (Some example_addr)) \<and>
   verifyChecksum (PTCPPacket 8 1 0 0 0 0 0 5 [1, 2] (Some example_addr))
     = Inl TruncatedDataError \<and>
   transportGoneAway (mx gone_sys) \<and>
   datagramReceived example_env trunc_dg example_addr gone_sys = Some (gone_sys, Inr ()) \<and>
   tr gone_sys = []"
  by code_simp

text \<open>
  Claim C7, amended: \<^verbatim>\<open>verifyChecksum\<close> fails with Truncated exactly when
  len(data) < dlen, with Garbage exactly when len(data) > dlen, and with ChecksumMismatch
  exactly when len(data) = dlen and the CRC-32 of the data differs from the checksum field.
  For a datagram that \<^verbatim>\<open>decode\<close> accepts: on a Truncated failure \<^verbatim>\<open>datagramReceived\<close>
  builds an STB packet from the datagram's destination port to its source port whose
  2-byte payload is the observed payload length as a big-endian u16, and sends its
  encoding back to the sender of the datagram unless the transport has gone away (then it
  sends nothing); on Garbage or ChecksumMismatch it only prints, sends nothing and leaves
  the multiplexer as it was.
\<close>

theorem checksum_failures:
  assumes "decode bs (Some a) = Inr pkt"
  shows
   "(verifyChecksum pkt = Inl TruncatedDataError \<longleftrightarrow> int (length (data pkt)) < dlen pkt) \<and>
    (verifyChecksum pkt = Inl GarbageDataError \<longleftrightarrow> dlen pkt < int (length (data pkt))) \<and>
    ((\<exists>e r. verifyChecksum pkt = Inl (ChecksumMismatchError e r)) \<longleftrightarrow>
       int (length (data pkt)) = dlen pkt \<and> crc32 (data pkt) \<noteq> checksum pkt) \<and>
    (verifyChecksum pkt = Inl TruncatedDataError \<longrightarrow>
       (\<exists>reply wire.
          reply = create (destPseudoPort pkt) (sourcePseudoPort pkt) 0 0
                    (be_bytes 2 (int (length (data pkt)))) default_window
                    False False False False True (Some a) \<and>
          stb reply \<and> length (data reply) = 2 \<and>
          from_be (data reply) = int (length (data pkt)) \<and>
          encode reply = Inr wire \<and>
          datagramReceived ev bs a s =
            Some (s\<lparr>tr := tr s @ (if transportGoneAway (mx s) then []
                                     else [TransportWrite wire (Some a)])\<rparr>, Inr ()))) \<and>
    (verifyChecksum pkt = Inl GarbageDataError \<longrightarrow>
       datagramReceived ev bs a s = Some (s\<lparr>tr := tr s @ [LogMessage]\<rparr>, Inr ())) \<and>
    ((\<exists>e r. verifyChecksum pkt = Inl (ChecksumMismatchError e r)) \<longrightarrow>
       datagramReceived ev bs a s =
         Some (s\<lparr>tr := tr s @ [LogMessage, LogMessage, LogMessage]\<rparr>, Inr ()))"
proof -
  note vc = verifyChecksum_cases [of pkt]
  let ?n = "int (length (data pkt))"
  have t: "\<exists>reply wire.
          reply = create (destPseudoPort pkt) (sourcePseudoPort pkt) 0 0
                    (be_bytes 2 ?n) default_window
                    False False False False True (Some a) \<and>
          stb reply \<and> length (data reply) = 2 \<and>
          from_be (data reply) = ?n \<and>
          encode reply = Inr wire \<and>
          datagramReceived ev bs a s =
            Some (s\<lparr>tr := tr s @ (if transportGoneAway (mx s) then []
                                     else [TransportWrite wire (Some a)])\<rparr>, Inr ())"
    if lt: "?n < dlen pkt"
  proof -
    from decode_ranges [OF assms] lt have "0 \<le> ?n" "?n < 65536" by simp_all
    then have "?n mod 256 ^ 2 = ?n" by simp
    then have fb: "from_be (be_bytes 2 ?n) = ?n"
      by (simp only: from_be_be_bytes)
    from datagram_truncated [OF assms lt, of ev s] fb show ?thesis
      by (simp add: stb_advisory_fields length_be_bytes)
  qed
  from vc t datagram_dropped [OF assms, of ev s] show ?thesis
    by blast
qed

theorem checksum_failures_witness:
  "decode trunc_dg (Some example_addr)
     = Inr (PTCPPacket 8 1 0 0 0 0 0 5 [1, 2] (Some example_addr)) \<and>
   verifyChecksum (PTCPPacket 8 1 0 0 0 0 0 5 [1, 2] (Some example_addr))
     = Inl TruncatedDataError \<and>
   \<not> transportGoneAway (mx (startProtocol False)) \<and>
   (\<exists>reply wire.
      stb reply \<and> data reply = [0, 2] \<and> encode reply = Inr wire \<and>
      datagramReceived example_env trunc_dg example_addr (startProtocol False) =
        Some ((startProtocol False)\<lparr>tr := [TransportWrite wire (Some example_addr)]\<rparr>, Inr ()))"
proof -
  let ?P = "PTCPPacket 8 1 0 0 0 0 0 5 [1, 2] (Some example_addr)"
  have d: "decode trunc_dg (Some example_addr) = Inr ?P"
    by code_simp
  have l: "int (length (data ?P)) < dlen ?P" "int (length (data ?P)) = 2"
    by (simp_all add: PTCPPacket_def)
  have g: "\<not> transportGoneAway (mx (startProtocol False))" "tr (startProtocol False) = []"
    by (simp_all add: startProtocol_def)
  have b: "be_bytes 2 2 = [0, 2]"
    by (simp add: be_bytes_numeral)
  note inst = checksum_failures [OF d, of example_env "startProtocol False"]
  from inst l(1) have v: "verifyChecksum ?P = Inl TruncatedDataError"
    by blast
  with inst obtain reply wire where
    r: "reply = create (destPseudoPort ?P) (sourcePseudoPort ?P) 0 0
                    (be_bytes 2 (int (length (data ?P)))) default_window
                    False False False False True (Some example_addr)"
    and s: "stb reply" and e: "encode reply = Inr wire"
    and run: "datagramReceived example_env trunc_dg example_addr (startProtocol False) =
        Some ((startProtocol False)\<lparr>tr := tr (startProtocol False) @
            (if transportGoneAway (mx (startProtocol False)) then []
             else [TransportWrite wire (Some example_addr)])\<rparr>, Inr ())"
    by blast
  from r have dr: "data reply = [0, 2]"
    by (simp only: l(2) b stb_advisory_fields)
  from run g have "datagramReceived example_env trunc_dg example_addr (startProtocol False) =
        Some ((startProtocol False)\<lparr>tr := [TransportWrite wire (Some example_addr)]\<rparr>, Inr ())"
    by simp
  with d v g(1) s dr e show ?thesis by blast
qed

subsection \<open>The dictionary of connections\<close>











end
